theory Spec2Isabelle
  imports Complex_Main "HOL-Library.Monad_Syntax" "HOL-Library.AList" "HOL-Library.Sublist"
begin

section \<open>Values\<close>

text \<open>
  \<^verbatim>\<open>optimize_geojson.py\<close> works on what \<^verbatim>\<open>json.load\<close> returns: \<^verbatim>\<open>None\<close>, booleans,
  numbers, strings, lists and dicts with string keys. A geometry is such a dict, read with
  \<^verbatim>\<open>.get\<close> and written with \<^verbatim>\<open>geometry['coordinates'] = ...\<close>.

  Numbers are modelled as reals: Python's \<^verbatim>\<open>int\<close> and \<^verbatim>\<open>float\<close> are one constructor
  \<open>JNum\<close>, arithmetic is exact, and the rounding error, overflow, infinities and NaN of
  IEEE doubles are not part of the model. A dict is the list of its members in insertion
  order; a key is looked up from the front, and the lists that stand for dicts have no key
  twice.

  A raised exception (\<^verbatim>\<open>TypeError\<close>, \<^verbatim>\<open>IndexError\<close>, \<^verbatim>\<open>KeyError\<close>, \<^verbatim>\<open>AttributeError\<close>,
  \<^verbatim>\<open>RecursionError\<close>) is the result \<open>None\<close>; a returned value \<open>v\<close> is \<open>Some v\<close>.
\<close>

datatype json =
    JNull
  | JBool bool
  | JNum real
  | JStr string
  | JArr "json list"
  | JObj "(string \<times> json) list"

subsection \<open>The Python operations the source applies to them\<close>

text \<open>Truth value: \<^verbatim>\<open>if not geometry\<close>, \<^verbatim>\<open>if not coords\<close>, \<^verbatim>\<open>if simplified_polygon\<close>.\<close>

fun py_bool :: "json \<Rightarrow> bool" where
  "py_bool JNull = False"
| "py_bool (JBool b) = b"
| "py_bool (JNum x) = (x \<noteq> 0)"
| "py_bool (JStr s) = (s \<noteq> [])"
| "py_bool (JArr xs) = (xs \<noteq> [])"
| "py_bool (JObj kvs) = (kvs \<noteq> [])"

text \<open>\<^verbatim>\<open>d.get(k, default)\<close>: only a dict has the method.\<close>

fun py_get :: "json \<Rightarrow> string \<Rightarrow> json \<Rightarrow> json option" where
  "py_get (JObj kvs) k d = Some (case map_of kvs k of Some v \<Rightarrow> v | None \<Rightarrow> d)"
| "py_get _ k d = None"

text \<open>\<^verbatim>\<open>len(x)\<close>: strings, lists and dicts are sized.\<close>

fun py_len :: "json \<Rightarrow> nat option" where
  "py_len (JStr s) = Some (length s)"
| "py_len (JArr xs) = Some (length xs)"
| "py_len (JObj kvs) = Some (length kvs)"
| "py_len _ = None"

text \<open>
  \<^verbatim>\<open>for y in x\<close>: a list yields its elements, a string its characters as one-character
  strings, a dict its keys.
\<close>

fun py_iter :: "json \<Rightarrow> json list option" where
  "py_iter (JStr s) = Some (map (\<lambda>c. JStr [c]) s)"
| "py_iter (JArr xs) = Some xs"
| "py_iter (JObj kvs) = Some (map (\<lambda>kv. JStr (fst kv)) kvs)"
| "py_iter _ = None"

text \<open>
  \<^verbatim>\<open>isinstance(c, (int, float))\<close> with the value: \<^verbatim>\<open>bool\<close> is a subclass of \<^verbatim>\<open>int\<close>.
  The arithmetic of \<^verbatim>\<open>perpendicular_distance\<close> raises \<^verbatim>\<open>TypeError\<close> as soon as one of its
  six operands is not such a number.
\<close>

fun py_number :: "json \<Rightarrow> real option" where
  "py_number (JNum x) = Some x"
| "py_number (JBool b) = Some (of_bool b)"
| "py_number _ = None"

text \<open>
  \<^verbatim>\<open>x[i]\<close> for an index \<open>i \<ge> 0\<close>: out of range raises \<^verbatim>\<open>IndexError\<close>; a dict from
  \<^verbatim>\<open>json.load\<close> has no integer key (\<^verbatim>\<open>KeyError\<close>); the other values are not
  subscriptable.
\<close>

fun py_getitem :: "json \<Rightarrow> nat \<Rightarrow> json option" where
  "py_getitem (JArr xs) i = (if i < length xs then Some (xs ! i) else None)"
| "py_getitem (JStr s) i = (if i < length s then Some (JStr [s ! i]) else None)"
| "py_getitem _ i = None"

text \<open>
  \<^verbatim>\<open>d[k] = v\<close> on a dict: the member \<open>k\<close> is replaced where it stands, or added at the
  end. The result is the dict after the assignment.
\<close>

fun py_setitem :: "json \<Rightarrow> string \<Rightarrow> json \<Rightarrow> json option" where
  "py_setitem (JObj kvs) k v = Some (JObj (AList.update k v kvs))"
| "py_setitem _ k v = None"

text \<open>
  \<^verbatim>\<open>round(x, ndigits)\<close>: to the nearest multiple of \<open>10\<^sup>-\<^sup>n\<close>, a tie to the even
  neighbour.
\<close>

definition round_half_even :: "real \<Rightarrow> int" where
  "round_half_even x =
    (let f = \<lfloor>x\<rfloor>; r = x - of_int f
     in if r < 1 / 2 then f else if 1 / 2 < r then f + 1 else if even f then f else f + 1)"

definition py_round :: "real \<Rightarrow> int \<Rightarrow> real" where
  "py_round x ndigits =
    (if 0 \<le> ndigits then of_int (round_half_even (x * 10 ^ nat ndigits)) / 10 ^ nat ndigits
     else of_int (round_half_even (x / 10 ^ nat (- ndigits))) * 10 ^ nat (- ndigits))"

section \<open>\<^verbatim>\<open>count_coordinates\<close>\<close>

declare Option.bind_cong [fundef_cong]

function count_coordinates :: "json \<Rightarrow> nat option" where
  "count_coordinates geometry =
    (if \<not> py_bool geometry then Some 0
     else do {
       geom_type \<leftarrow> py_get geometry ''type'' (JStr []);
       coords \<leftarrow> py_get geometry ''coordinates'' (JArr []);
       if geom_type = JStr ''Point'' then Some 1
       else if geom_type = JStr ''LineString'' then py_len coords
       else if geom_type = JStr ''Polygon'' then do {
         rings \<leftarrow> py_iter coords;
         ns \<leftarrow> those (map py_len rings);
         Some (sum_list ns) }
       else if geom_type = JStr ''MultiPolygon'' then do {
         polygons \<leftarrow> py_iter coords;
         ns \<leftarrow> those (map (\<lambda>polygon. do {
                 rings \<leftarrow> py_iter polygon;
                 ms \<leftarrow> those (map py_len rings);
                 Some (sum_list ms) }) polygons);
         Some (sum_list ns) }
       else if geom_type \<in> set [JStr ''MultiPoint'', JStr ''MultiLineString''] then do {
         parts \<leftarrow> py_iter coords;
         Some (sum_list (map (\<lambda>part. case part of JArr xs \<Rightarrow> length xs | _ \<Rightarrow> 1) parts)) }
       else if geom_type = JStr ''GeometryCollection'' then do {
         geoms \<leftarrow> py_get geometry ''geometries'' (JArr []);
         gs \<leftarrow> py_iter geoms;
         ns \<leftarrow> those (map count_coordinates gs);
         Some (sum_list ns) }
       else Some 0 })"
  by pat_completeness auto

lemma size_map_of:
  "map_of kvs k = Some v \<Longrightarrow> size v < Suc (size_list (size_prod (\<lambda>x. 0) size) kvs)"
  by (induction kvs) (auto split: if_splits)

lemma size_elem: "g \<in> set gs \<Longrightarrow> size (g::json) \<le> size_list size gs"
  by (induction gs) auto

lemma size_py_iter: "py_iter v = Some gs \<Longrightarrow> g \<in> set gs \<Longrightarrow> size g < Suc (size v)"
  by (cases v) (auto simp: less_Suc_eq_le dest: size_elem)

lemma size_member:
  assumes "py_get geometry k (JArr []) = Some v" and "py_iter v = Some gs" and "g \<in> set gs"
  shows "size g < size geometry"
proof (cases geometry)
  case (JObj kvs)
  show ?thesis
  proof (cases "map_of kvs k")
    case None
    with assms JObj show ?thesis by auto
  next
    case (Some w)
    with assms(1) JObj have "v = w" by simp
    with Some have "size v < Suc (size_list (size_prod (\<lambda>x. 0) size) kvs)"
      by (simp add: size_map_of)
    moreover from assms(2,3) have "size g < Suc (size v)" by (rule size_py_iter)
    ultimately show ?thesis using JObj by simp
  qed
qed (use assms in simp_all)

termination count_coordinates
  by (relation "measure size") (auto dest: size_member)

declare count_coordinates.simps [simp del]

section \<open>\<^verbatim>\<open>round_coordinates\<close>\<close>

text \<open>
  The nested \<^verbatim>\<open>round_coord\<close>, with \<^verbatim>\<open>precision\<close> of the enclosing call as its first
  argument. The last equation is \<^verbatim>\<open>return coord\<close>: \<^verbatim>\<open>None\<close>, strings and dicts.
\<close>

fun round_coord :: "int \<Rightarrow> json \<Rightarrow> json" where
  "round_coord precision (JNum x) = JNum (py_round x precision)"
| "round_coord precision (JBool b) = JNum (py_round (of_bool b) precision)"
| "round_coord precision (JArr cs) =
     JArr (map (\<lambda>c. case py_number c of Some x \<Rightarrow> JNum (py_round x precision)
                     | None \<Rightarrow> round_coord precision c) cs)"
| "round_coord precision coord = coord"

text \<open>
  The result is the dict \<^verbatim>\<open>geometry\<close> as it stands when the call returns; the call
  returns the object it was given (section \<open>Objects\<close>).
\<close>

definition round_coordinates :: "json \<Rightarrow> int \<Rightarrow> json option" where
  "round_coordinates geometry precision =
    (if \<not> py_bool geometry then Some geometry
     else do {
       geom_type \<leftarrow> py_get geometry ''type'' (JStr []);
       coords \<leftarrow> py_get geometry ''coordinates'' JNull;
       if \<not> py_bool coords then Some geometry
       else py_setitem geometry ''coordinates'' (round_coord precision coords) })"

section \<open>\<^verbatim>\<open>simplify_line\<close>\<close>

definition perpendicular_distance :: "json \<Rightarrow> json \<Rightarrow> json \<Rightarrow> real option" where
  "perpendicular_distance point line_start line_end = do {
     jx \<leftarrow> py_getitem point 0; jy \<leftarrow> py_getitem point 1;
     jx1 \<leftarrow> py_getitem line_start 0; jy1 \<leftarrow> py_getitem line_start 1;
     jx2 \<leftarrow> py_getitem line_end 0; jy2 \<leftarrow> py_getitem line_end 1;
     x \<leftarrow> py_number jx; y \<leftarrow> py_number jy;
     x1 \<leftarrow> py_number jx1; y1 \<leftarrow> py_number jy1;
     x2 \<leftarrow> py_number jx2; y2 \<leftarrow> py_number jy2;
     let num = \<bar>(y2 - y1) * x - (x2 - x1) * y + x2 * y1 - y2 * x1\<bar>;
         den = sqrt ((y2 - y1)\<^sup>2 + (x2 - x1)\<^sup>2)
     in if den = 0 then Some (sqrt ((x - x1)\<^sup>2 + (y - y1)\<^sup>2))
        else Some (num / den) }"

text \<open>
  The loop \<^verbatim>\<open>for i in range(1, end)\<close> of \<^verbatim>\<open>douglas_peucker\<close>, over the interior points
  \<^verbatim>\<open>points[1:end]\<close> with the running index \<open>i\<close>: it returns \<open>(dmax, index)\<close>.
\<close>

fun farthest :: "json \<Rightarrow> json \<Rightarrow> json list \<Rightarrow> nat \<Rightarrow> real \<Rightarrow> nat \<Rightarrow> (real \<times> nat) option" where
  "farthest first_pt last_pt [] i dmax index = Some (dmax, index)"
| "farthest first_pt last_pt (p # ps) i dmax index = do {
     d \<leftarrow> perpendicular_distance p first_pt last_pt;
     if d > dmax then farthest first_pt last_pt ps (Suc i) d i
     else farthest first_pt last_pt ps (Suc i) dmax index }"

lemma farthest_index:
  "farthest a b ps i dmax index = Some (d, k) \<Longrightarrow> k = index \<or> (i \<le> k \<and> k < i + length ps)"
proof (induction ps arbitrary: i dmax index)
  case Nil
  then show ?case by simp
next
  case (Cons p ps)
  then show ?case
    by (fastforce split: Option.bind_splits if_splits)
qed

text \<open>
  \<^verbatim>\<open>douglas_peucker\<close> on a list of points. When \<^verbatim>\<open>dmax > tolerance\<close> holds with
  \<^verbatim>\<open>index\<close> still \<open>0\<close> (a negative tolerance and no interior point off the chord),
  \<^verbatim>\<open>points[index:]\<close> is the whole list again and the second recursive call repeats the
  first one for ever: Python ends it with \<^verbatim>\<open>RecursionError\<close>, the model with \<open>None\<close>.
  The interpreter's recursion limit on long inputs is not modelled.
\<close>

function douglas_peucker :: "json list \<Rightarrow> real \<Rightarrow> json list option" where
  "douglas_peucker points tolerance =
    (if length points \<le> 2 then Some points
     else do {
       (dmax, index) \<leftarrow> farthest (points ! 0) (points ! (length points - 1))
                           (take (length points - 2) (drop 1 points)) 1 0 0;
       if dmax > tolerance then
         (if index = 0 then None
          else do {
            rec_results1 \<leftarrow> douglas_peucker (take (index + 1) points) tolerance;
            rec_results2 \<leftarrow> douglas_peucker (drop index points) tolerance;
            Some (butlast rec_results1 @ rec_results2) })
       else Some [points ! 0, points ! (length points - 1)] })"
  by pat_completeness auto
termination
  by (relation "measure (\<lambda>(points, tolerance). length points)")
     (auto dest!: farthest_index)

declare douglas_peucker.simps [simp del]

text \<open>
  \<^verbatim>\<open>simplify_line\<close> takes whatever stands under \<^verbatim>\<open>coordinates\<close>. With more than two
  entries, a string fails in the first distance (\<^verbatim>\<open>points[1]\<close> is a one-character
  string, whose \<^verbatim>\<open>[1]\<close> is out of range) and a dict at \<^verbatim>\<open>points[1]\<close>; only a list
  reaches the recursion.
\<close>

definition simplify_line :: "json \<Rightarrow> real \<Rightarrow> json option" where
  "simplify_line coords tolerance = do {
     n \<leftarrow> py_len coords;
     if n \<le> 2 then Some coords
     else (case coords of
             JArr points \<Rightarrow> map_option JArr (douglas_peucker points tolerance)
           | _ \<Rightarrow> None) }"

section \<open>\<^verbatim>\<open>simplify_geometry\<close>\<close>

text \<open>
  The body of the three loops over lines and rings: simplify, and append the result when
  it has at least \<open>k\<close> points, the original otherwise (\<open>k = 2\<close> for a line, \<open>4\<close> for a
  ring).
\<close>

definition simplify_or_keep :: "nat \<Rightarrow> real \<Rightarrow> json \<Rightarrow> json option" where
  "simplify_or_keep k tolerance ring = do {
     simplified_ring \<leftarrow> simplify_line ring tolerance;
     n \<leftarrow> py_len simplified_ring;
     Some (if n \<ge> k then simplified_ring else ring) }"

definition simplify_geometry :: "json \<Rightarrow> real \<Rightarrow> json option" where
  "simplify_geometry geometry tolerance =
    (if \<not> py_bool geometry then Some geometry
     else do {
       geom_type \<leftarrow> py_get geometry ''type'' (JStr []);
       coords \<leftarrow> py_get geometry ''coordinates'' (JArr []);
       if geom_type = JStr ''Point'' \<or> geom_type = JStr ''MultiPoint'' then Some geometry
       else if geom_type = JStr ''LineString'' then do {
         simplified \<leftarrow> simplify_line coords tolerance;
         n \<leftarrow> py_len simplified;
         if n \<ge> 2 then py_setitem geometry ''coordinates'' simplified else Some geometry }
       else if geom_type = JStr ''MultiLineString'' then do {
         lines \<leftarrow> py_iter coords;
         simplified_coords \<leftarrow> those (map (simplify_or_keep 2 tolerance) lines);
         py_setitem geometry ''coordinates'' (JArr simplified_coords) }
       else if geom_type = JStr ''Polygon'' then do {
         rings \<leftarrow> py_iter coords;
         simplified_coords \<leftarrow> those (map (simplify_or_keep 4 tolerance) rings);
         py_setitem geometry ''coordinates'' (JArr simplified_coords) }
       else if geom_type = JStr ''MultiPolygon'' then do {
         polygons \<leftarrow> py_iter coords;
         simplified_polygons \<leftarrow> those (map (\<lambda>polygon. do {
             rings \<leftarrow> py_iter polygon;
             those (map (simplify_or_keep 4 tolerance) rings) }) polygons);
         py_setitem geometry ''coordinates''
           (JArr (map JArr (filter (\<lambda>simplified_polygon. simplified_polygon \<noteq> [])
                              simplified_polygons))) }
       else Some geometry })"

section \<open>Objects\<close>

text \<open>
  A geometry is a dict object: \<^verbatim>\<open>geometry['coordinates'] = ...\<close> changes the object the
  caller passed, and \<^verbatim>\<open>return geometry\<close> hands the same object back. The store maps the
  address of a dict object to its members. A call takes the store and the address of its
  argument, and returns the store after the call and the address of its result. Both
  functions assign once, as their last step, so a call that raises leaves the store as it
  was. Lists are never updated in place by the source (every list it builds is new), so
  they are values here.
\<close>

type_synonym store = "nat \<Rightarrow> json option"

definition call_simplify_geometry :: "store \<Rightarrow> nat \<Rightarrow> real \<Rightarrow> (store \<times> nat) option" where
  "call_simplify_geometry s geometry tolerance = do {
     members \<leftarrow> s geometry;
     members' \<leftarrow> simplify_geometry members tolerance;
     Some (s(geometry \<mapsto> members'), geometry) }"

definition call_round_coordinates :: "store \<Rightarrow> nat \<Rightarrow> int \<Rightarrow> (store \<times> nat) option" where
  "call_round_coordinates s geometry precision = do {
     members \<leftarrow> s geometry;
     members' \<leftarrow> round_coordinates members precision;
     Some (s(geometry \<mapsto> members'), geometry) }"

section \<open>Notions of the specification\<close>

text \<open>
  A point, as the distance computation reads it: a value whose entries 0 and 1 are
  numbers (a Coordinate pair, or a triple with an altitude).
\<close>

definition point_xy :: "json \<Rightarrow> (real \<times> real) option" where
  "point_xy p = do {
     jx \<leftarrow> py_getitem p 0; jy \<leftarrow> py_getitem p 1;
     x \<leftarrow> py_number jx; y \<leftarrow> py_number jy;
     Some (x, y) }"

definition is_point :: "json \<Rightarrow> bool" where
  "is_point p = (point_xy p \<noteq> None)"

text \<open>The value \<^verbatim>\<open>perpendicular_distance\<close> computes from three points.\<close>

fun chord_distance :: "real \<times> real \<Rightarrow> real \<times> real \<Rightarrow> real \<times> real \<Rightarrow> real" where
  "chord_distance (x, y) (x1, y1) (x2, y2) =
    (let num = \<bar>(y2 - y1) * x - (x2 - x1) * y + x2 * y1 - y2 * x1\<bar>;
         den = sqrt ((y2 - y1)\<^sup>2 + (x2 - x1)\<^sup>2)
     in if den = 0 then sqrt ((x - x1)\<^sup>2 + (y - y1)\<^sup>2) else num / den)"

text \<open>
  Three points are exactly collinear when the cross product of the two vectors from the
  first one is zero; coincident points are collinear. \<open>no_three_collinear\<close> says it of
  no three consecutive points of a sequence.
\<close>

definition collinear3 :: "json \<Rightarrow> json \<Rightarrow> json \<Rightarrow> bool" where
  "collinear3 a b c =
    (case (point_xy a, point_xy b, point_xy c) of
       (Some (ax, ay), Some (bx, by), Some (cx, cy)) \<Rightarrow>
          (bx - ax) * (cy - ay) - (by - ay) * (cx - ax) = 0
     | _ \<Rightarrow> False)"

fun no_three_collinear :: "json list \<Rightarrow> bool" where
  "no_three_collinear (a # b # c # ps) = (\<not> collinear3 a b c \<and> no_three_collinear (b # c # ps))"
| "no_three_collinear ps = True"

text \<open>The nesting depth of a coordinates payload: 0 for a number, 1 for a point.\<close>

fun nesting_depth :: "json \<Rightarrow> nat" where
  "nesting_depth (JArr xs) = Suc (fold max (map nesting_depth xs) 0)"
| "nesting_depth _ = 0"

text \<open>
  A GeometryCollection as the data model has it: the tag, the member geometries under
  \<^verbatim>\<open>geometries\<close>, and no \<^verbatim>\<open>coordinates\<close> member.
\<close>

definition is_geometry_collection :: "json \<Rightarrow> bool" where
  "is_geometry_collection g =
    (case g of
       JObj kvs \<Rightarrow> map_of kvs ''type'' = Some (JStr ''GeometryCollection'')
                   \<and> map_of kvs ''coordinates'' = None
     | _ \<Rightarrow> False)"

section \<open>The sums of \<^verbatim>\<open>count_coordinates\<close>, named\<close>

text \<open>
  \<open>sum_len\<close> is \<^verbatim>\<open>sum(len(ring) for ring in coords)\<close>, \<open>sum_sum_len\<close> the nested sum of
  the MultiPolygon branch, \<open>sum_parts\<close> the sum of the MultiPoint and MultiLineString
  branch; \<open>count_payload\<close> is the dispatch on the tag without the GeometryCollection
  branch, and \<open>dict_member kvs k d\<close> the value of \<^verbatim>\<open>d.get(k, default)\<close>.
\<close>

definition sum_len :: "json \<Rightarrow> nat option" where
  "sum_len coords = do {
     rings \<leftarrow> py_iter coords;
     ns \<leftarrow> those (map py_len rings);
     Some (sum_list ns) }"

definition sum_sum_len :: "json \<Rightarrow> nat option" where
  "sum_sum_len coords = do {
     polygons \<leftarrow> py_iter coords;
     ns \<leftarrow> those (map sum_len polygons);
     Some (sum_list ns) }"

definition part_len :: "json \<Rightarrow> nat" where
  "part_len part = (case part of JArr xs \<Rightarrow> length xs | _ \<Rightarrow> 1)"

definition sum_parts :: "json \<Rightarrow> nat option" where
  "sum_parts coords = do {
     parts \<leftarrow> py_iter coords;
     Some (sum_list (map part_len parts)) }"

definition count_payload :: "json \<Rightarrow> json \<Rightarrow> nat option" where
  "count_payload geom_type coords =
    (if geom_type = JStr ''Point'' then Some 1
     else if geom_type = JStr ''LineString'' then py_len coords
     else if geom_type = JStr ''Polygon'' then sum_len coords
     else if geom_type = JStr ''MultiPolygon'' then sum_sum_len coords
     else if geom_type \<in> set [JStr ''MultiPoint'', JStr ''MultiLineString''] then sum_parts coords
     else Some 0)"

definition dict_member :: "(string \<times> json) list \<Rightarrow> string \<Rightarrow> json \<Rightarrow> json" where
  "dict_member kvs k d = (case map_of kvs k of Some v \<Rightarrow> v | None \<Rightarrow> d)"

section \<open>Douglas-Peucker\<close>

lemma perpendicular_distance_xy:
  "perpendicular_distance p a b =
     (case point_xy p of None \<Rightarrow> None | Some c \<Rightarrow>
       (case point_xy a of None \<Rightarrow> None | Some c1 \<Rightarrow>
         (case point_xy b of None \<Rightarrow> None | Some c2 \<Rightarrow> Some (chord_distance c c1 c2))))"
  unfolding perpendicular_distance_def point_xy_def
  by (auto simp: Let_def split: Option.bind_splits option.splits)


lemma chord_distance_nonneg: "0 \<le> chord_distance c c1 c2"
  by (cases c; cases c1; cases c2) (simp add: Let_def)

lemma perpendicular_distance_points:
  assumes "is_point p" "is_point a" "is_point b"
  shows "\<exists>d. perpendicular_distance p a b = Some d \<and> 0 \<le> d"
  using assms unfolding is_point_def
  by (auto simp: perpendicular_distance_xy chord_distance_nonneg)

lemma farthest_total:
  assumes "list_all is_point ps" "is_point a" "is_point b"
  shows "\<exists>d k. farthest a b ps i dmax index = Some (d, k)"
  using assms(1)
proof (induction ps arbitrary: i dmax index)
  case Nil
  then show ?case by simp
next
  case (Cons p ps)
  from Cons.prems assms(2,3) obtain d where "perpendicular_distance p a b = Some d"
    using perpendicular_distance_points [of p a b] by auto
  with Cons show ?case by simp
qed

lemma farthest_grows:
  "farthest a b ps i dmax index = Some (d, k) \<Longrightarrow>
     dmax \<le> d \<and> (dmax < d \<longrightarrow> i \<le> k) \<and> (d = dmax \<longrightarrow> k = index)"
proof (induction ps arbitrary: i dmax index)
  case Nil
  then show ?case by simp
next
  case (Cons p ps)
  then show ?case
    by (fastforce split: Option.bind_splits if_splits)
qed

lemma subseq_butlast_same_last:
  assumes "subseq rs xs" "rs \<noteq> []" "xs \<noteq> []" "last rs = last xs"
  shows "subseq (butlast rs) (butlast xs)"
proof -
  have "butlast rs @ [last rs] = rs" using assms(2) by simp
  moreover have "butlast xs @ [last xs] = xs" using assms(3) by simp
  ultimately have "subseq (butlast rs @ [last rs]) (butlast xs @ [last rs])"
    using assms(1) assms(4) by metis
  then show ?thesis by (simp only: subseq_append)
qed

lemma subseq_ends:
  assumes "2 \<le> length xs"
  shows "subseq [xs ! 0, xs ! (length xs - 1)] xs"
proof -
  from assms obtain a ys where xs: "xs = a # ys" and ys: "ys \<noteq> []"
    by (cases xs) (auto simp: Suc_le_eq)
  have "last ys \<in> set ys" using ys by simp
  then have "subseq [last ys] ys" by (simp add: subseq_singleton_left)
  moreover have "xs ! (length xs - 1) = last ys"
    using xs ys by (simp add: last_conv_nth)
  ultimately show ?thesis using xs by simp
qed

lemma douglas_peucker_shape:
  "douglas_peucker points tolerance = Some rs \<Longrightarrow>
     subseq rs points \<and> (2 \<le> length points \<longrightarrow> 2 \<le> length rs)
     \<and> (points \<noteq> [] \<longrightarrow> rs \<noteq> [] \<and> hd rs = hd points \<and> last rs = last points)"
proof (induction points tolerance arbitrary: rs rule: douglas_peucker.induct)
  case (1 points tolerance)
  show ?case
  proof (cases "length points \<le> 2")
    case True
    with "1.prems" show ?thesis by (simp add: douglas_peucker.simps)
  next
    case False
    then have len: "3 \<le> length points" by simp
    from "1.prems" False obtain dmax index where
      far: "farthest (points ! 0) (points ! (length points - 1))
              (take (length points - 2) (drop 1 points)) 1 0 0 = Some (dmax, index)"
      by (auto simp: douglas_peucker.simps [of points] split: Option.bind_splits)
    show ?thesis
    proof (cases "tolerance < dmax")
      case collapse: False
      with "1.prems" False far have rs: "rs = [points ! 0, points ! (length points - 1)]"
        by (simp add: douglas_peucker.simps [of points])
      have "subseq rs points" unfolding rs using len by (intro subseq_ends) simp
      moreover have ne: "points \<noteq> []" using len by auto
      then have "hd rs = hd points" using rs by (simp add: hd_conv_nth)
      moreover have "last rs = last points" using ne rs by (simp add: last_conv_nth)
      ultimately show ?thesis using rs by simp
    next
      case split: True
      with "1.prems" False far have nz: "index \<noteq> 0"
        by (auto simp: douglas_peucker.simps [of points] split: if_splits)
      from "1.prems" False far split nz obtain r1 r2 where
        r1: "douglas_peucker (take (index + 1) points) tolerance = Some r1" and
        r2: "douglas_peucker (drop index points) tolerance = Some r2" and
        rs: "rs = butlast r1 @ r2"
        by (auto simp: douglas_peucker.simps [of points] split: Option.bind_splits)
      from farthest_index [OF far] nz have ix: "1 \<le> index" "index + 1 < length points"
        by auto
      note IH1 = "1.IH"(1) [OF False far refl split nz r1]
      note IH2 = "1.IH"(2) [OF False far refl split nz r1 r2]
      from ix have t_ne: "take (index + 1) points \<noteq> []" and d_ne: "drop index points \<noteq> []"
        by auto
      from IH1 ix t_ne have a1: "subseq r1 (take (index + 1) points)" "2 \<le> length r1"
        "hd r1 = hd points" "last r1 = points ! index"
        by (auto simp: last_conv_nth min_def)
      from IH2 ix d_ne have a2: "subseq r2 (drop index points)" "2 \<le> length r2" "r2 \<noteq> []"
        "last r2 = last points"
        by auto
      have tk: "take (Suc index) points = take index points @ [points ! index]"
        using ix by (simp add: take_Suc_conv_app_nth)
      have "last r1 = last (take (index + 1) points)"
        using a1(4) by (simp add: tk)
      with a1 t_ne have "subseq (butlast r1) (butlast (take (index + 1) points))"
        by (intro subseq_butlast_same_last) auto
      moreover have "butlast (take (index + 1) points) = take index points"
        by (simp add: tk)
      ultimately have "subseq (butlast r1) (take index points)" by simp
      from list_emb_append_mono [OF this a2(1)]
      have s: "subseq rs points" by (simp add: rs)
      have bl: "butlast r1 \<noteq> []" using a1(2) by (cases r1) (auto split: if_splits)
      then have "hd rs = hd r1" by (cases r1) (auto simp: rs split: if_splits)
      moreover have "last rs = last r2" using a2(3) by (simp add: rs)
      moreover have "2 \<le> length rs" using a2(2) by (simp add: rs)
      ultimately show ?thesis using s a1(3) a2(4) by auto
    qed
  qed
qed


lemma list_all_nth: "list_all P xs \<Longrightarrow> n < length xs \<Longrightarrow> P (xs ! n)"
  by (simp add: list_all_length)

lemma list_all_take: "list_all P xs \<Longrightarrow> list_all P (take n xs)"
  by (auto simp: list_all_iff dest: in_set_takeD)

lemma list_all_drop: "list_all P xs \<Longrightarrow> list_all P (drop n xs)"
  by (auto simp: list_all_iff dest: in_set_dropD)

lemma douglas_peucker_total:
  "0 \<le> tolerance \<Longrightarrow> list_all is_point points \<Longrightarrow>
     \<exists>rs. douglas_peucker points tolerance = Some rs"
proof (induction points tolerance rule: douglas_peucker.induct)
  case (1 points tolerance)
  show ?case
  proof (cases "length points \<le> 2")
    case True
    then show ?thesis by (simp add: douglas_peucker.simps [of points])
  next
    case False
    from "1.prems"(2) False have ends: "is_point (points ! 0)" "is_point (points ! (length points - 1))"
      by (auto intro: list_all_nth)
    from "1.prems"(2) have "list_all is_point (take (length points - 2) (drop 1 points))"
      by (intro list_all_take list_all_drop)
    from farthest_total [OF this ends] obtain dmax index where
      far: "farthest (points ! 0) (points ! (length points - 1))
              (take (length points - 2) (drop 1 points)) 1 0 0 = Some (dmax, index)"
      by blast
    show ?thesis
    proof (cases "tolerance < dmax")
      case collapse: False
      with False far show ?thesis by (simp add: douglas_peucker.simps [of points])
    next
      case split: True
      with "1.prems"(1) farthest_grows [OF far] have nz: "index \<noteq> 0" by auto
      from "1.prems"(2) have "list_all is_point (take (index + 1) points)"
        by (rule list_all_take)
      from "1.IH"(1) [OF False far refl split nz "1.prems"(1) this]
      obtain r1 where r1: "douglas_peucker (take (index + 1) points) tolerance = Some r1"
        by blast
      from "1.prems"(2) have "list_all is_point (drop index points)"
        by (rule list_all_drop)
      from "1.IH"(2) [OF False far refl split nz r1 "1.prems"(1) this]
      obtain r2 where r2: "douglas_peucker (drop index points) tolerance = Some r2"
        by blast
      from False far split nz r1 r2 show ?thesis
        by (simp add: douglas_peucker.simps [of points])
    qed
  qed
qed

lemma simplify_line_list:
  "simplify_line (JArr points) tolerance = map_option JArr (douglas_peucker points tolerance)"
  by (cases "length points \<le> 2")
     (simp_all add: simplify_line_def douglas_peucker.simps [of points])

lemma point_xy_pair [simp]: "point_xy (JArr (JNum x # JNum y # zs)) = Some (x, y)"
  by (simp add: point_xy_def)

text \<open>
  C3. Whatever \<^verbatim>\<open>simplify_line\<close> returns for a list of points is a list, a subsequence
  of the input in the input's order, and for a non-empty input it starts with the first
  and ends with the last input point. For a tolerance \<open>\<ge> 0\<close> (so for every positive one)
  and points that have two numeric coordinates, it does return.
\<close>

theorem simplify_line_subsequence:
  "(\<forall>r. simplify_line (JArr points) tolerance = Some r \<longrightarrow>
      (\<exists>rs. r = JArr rs \<and> subseq rs points
         \<and> (points \<noteq> [] \<longrightarrow> rs \<noteq> [] \<and> hd rs = hd points \<and> last rs = last points)))
   \<and> (0 \<le> tolerance \<and> list_all is_point points \<longrightarrow>
        (\<exists>rs. simplify_line (JArr points) tolerance = Some (JArr rs)))"
proof (intro conjI allI impI)
  fix r
  assume "simplify_line (JArr points) tolerance = Some r"
  then obtain rs where r: "r = JArr rs" and dp: "douglas_peucker points tolerance = Some rs"
    by (auto simp: simplify_line_list)
  from douglas_peucker_shape [OF dp] r
  show "\<exists>rs. r = JArr rs \<and> subseq rs points
         \<and> (points \<noteq> [] \<longrightarrow> rs \<noteq> [] \<and> hd rs = hd points \<and> last rs = last points)"
    by blast
next
  assume "0 \<le> tolerance \<and> list_all is_point points"
  then obtain rs where "douglas_peucker points tolerance = Some rs"
    using douglas_peucker_total by blast
  then show "\<exists>rs. simplify_line (JArr points) tolerance = Some (JArr rs)"
    by (simp add: simplify_line_list)
qed

theorem simplify_line_subsequence_witness:
  "(0::real) \<le> 2
   \<and> list_all is_point [JArr [JNum 0, JNum 0], JArr [JNum 1, JNum 1], JArr [JNum 2, JNum 0]]
   \<and> simplify_line (JArr [JArr [JNum 0, JNum 0], JArr [JNum 1, JNum 1], JArr [JNum 2, JNum 0]]) 2
       = Some (JArr [JArr [JNum 0, JNum 0], JArr [JNum 2, JNum 0]])
   \<and> subseq [JArr [JNum 0, JNum 0], JArr [JNum 2, JNum 0]]
        [JArr [JNum 0, JNum 0], JArr [JNum 1, JNum 1], JArr [JNum 2, JNum 0]]"
  using simplify_line_subsequence
    [of "[JArr [JNum 0, JNum 0], JArr [JNum 1, JNum 1], JArr [JNum 2, JNum 0]]" 2]
  by (simp add: simplify_line_list douglas_peucker.simps perpendicular_distance_xy is_point_def)

lemma sqrt_16: "sqrt 16 = 4"
  using real_sqrt_abs [of 4] by simp

lemma sqrt_109_bound: "sqrt 109 < 20000"
proof -
  have "sqrt 109 < sqrt (20000\<^sup>2)" by (simp only: real_sqrt_less_iff) simp
  then show ?thesis by simp
qed

text \<open>
  C4. Scenario 1: on \<open>[[0,0],[1,0.00001],[2,0],[3,10],[4,0]]\<close> with tolerance \<open>0.001\<close>,
  \<^verbatim>\<open>simplify_line\<close> returns \<open>[[0,0],[2,0],[3,10],[4,0]]\<close>. The first scan finds the
  largest distance, 10, at index 3, which is where the line is split; index 1 is dropped
  in the left part.
\<close>

theorem scenario_1:
  "simplify_line (JArr [JArr [JNum 0, JNum 0], JArr [JNum 1, JNum 0.00001], JArr [JNum 2, JNum 0],
      JArr [JNum 3, JNum 10], JArr [JNum 4, JNum 0]]) 0.001
   = Some (JArr [JArr [JNum 0, JNum 0], JArr [JNum 2, JNum 0], JArr [JNum 3, JNum 10],
      JArr [JNum 4, JNum 0]])
   \<and> farthest (JArr [JNum 0, JNum 0]) (JArr [JNum 4, JNum 0])
       [JArr [JNum 1, JNum 0.00001], JArr [JNum 2, JNum 0], JArr [JNum 3, JNum 10]] 1 0 0
     = Some (10, 3)"
  using sqrt_109_bound
  by (simp add: simplify_line_list douglas_peucker.simps perpendicular_distance_xy sqrt_16
      field_simps)

subsection \<open>Tolerance zero\<close>

lemma sqrt_sum_squares_zero: "sqrt (a\<^sup>2 + b\<^sup>2) = 0 \<longleftrightarrow> a = 0 \<and> b = (0::real)"
  by (simp add: sum_power2_eq_zero_iff)

lemma chord_distance_degenerate:
  "sqrt ((y2 - y1)\<^sup>2 + (x2 - x1)\<^sup>2) = 0 \<Longrightarrow>
     chord_distance (x, y) (x1, y1) (x2, y2) = sqrt ((x - x1)\<^sup>2 + (y - y1)\<^sup>2)"
  by (simp add: Let_def)

lemma chord_distance_proper:
  "sqrt ((y2 - y1)\<^sup>2 + (x2 - x1)\<^sup>2) \<noteq> 0 \<Longrightarrow>
     chord_distance (x, y) (x1, y1) (x2, y2)
       = \<bar>(y2 - y1) * x - (x2 - x1) * y + x2 * y1 - y2 * x1\<bar>
           / sqrt ((y2 - y1)\<^sup>2 + (x2 - x1)\<^sup>2)"
  by (auto simp: Let_def)

lemma chord_distance_zero_end:
  assumes "chord_distance (x, y) (x1, y1) (x2, y2) = 0"
  shows "(x - x1) * (y2 - y1) - (y - y1) * (x2 - x1) = 0"
proof (cases "sqrt ((y2 - y1)\<^sup>2 + (x2 - x1)\<^sup>2) = 0")
  case True
  from assms have "sqrt ((x - x1)\<^sup>2 + (y - y1)\<^sup>2) = 0"
    by (simp only: chord_distance_degenerate [OF True])
  then show ?thesis by (simp add: sqrt_sum_squares_zero)
next
  case False
  from assms have "\<bar>(y2 - y1) * x - (x2 - x1) * y + x2 * y1 - y2 * x1\<bar>
           / sqrt ((y2 - y1)\<^sup>2 + (x2 - x1)\<^sup>2) = 0"
    by (simp only: chord_distance_proper [OF False])
  with False have "\<bar>(y2 - y1) * x - (x2 - x1) * y + x2 * y1 - y2 * x1\<bar> = 0"
    by (simp only: divide_eq_0_iff) simp
  then have "(y2 - y1) * x - (x2 - x1) * y + x2 * y1 - y2 * x1 = 0" by simp
  then show ?thesis by (simp add: algebra_simps)
qed

lemma chord_distance_zero_pair:
  assumes "chord_distance (x, y) (x1, y1) (x2, y2) = 0"
    and "chord_distance (x', y') (x1, y1) (x2, y2) = 0"
  shows "(x - x1) * (y' - y1) - (y - y1) * (x' - x1) = 0"
proof (cases "sqrt ((y2 - y1)\<^sup>2 + (x2 - x1)\<^sup>2) = 0")
  case True
  from assms(1) have "sqrt ((x - x1)\<^sup>2 + (y - y1)\<^sup>2) = 0"
    by (simp only: chord_distance_degenerate [OF True])
  then show ?thesis by (simp add: sqrt_sum_squares_zero)
next
  case False
  then have d: "y2 - y1 \<noteq> 0 \<or> x2 - x1 \<noteq> 0" by (auto simp: sqrt_sum_squares_zero)
  from chord_distance_zero_end [OF assms(1)] chord_distance_zero_end [OF assms(2)]
  have e: "(x - x1) * (y2 - y1) = (y - y1) * (x2 - x1)"
    "(x' - x1) * (y2 - y1) = (y' - y1) * (x2 - x1)" by simp_all
  from d show ?thesis
  proof
    assume n: "y2 - y1 \<noteq> 0"
    have "((x - x1) * (y' - y1) - (y - y1) * (x' - x1)) * (y2 - y1)
        = (y' - y1) * ((x - x1) * (y2 - y1)) - (y - y1) * ((x' - x1) * (y2 - y1))"
      by (simp add: algebra_simps)
    also have "\<dots> = 0" unfolding e by (simp add: algebra_simps)
    finally show ?thesis using n by simp
  next
    assume n: "x2 - x1 \<noteq> 0"
    have "((x - x1) * (y' - y1) - (y - y1) * (x' - x1)) * (x2 - x1)
        = (x - x1) * ((y' - y1) * (x2 - x1)) - (x' - x1) * ((y - y1) * (x2 - x1))"
      by (simp add: algebra_simps)
    also have "\<dots> = 0" unfolding e [symmetric] by (simp add: algebra_simps)
    finally show ?thesis using n by simp
  qed
qed

lemma farthest_max:
  "farthest a b ps i dmax index = Some (d, k) \<Longrightarrow> p \<in> set ps \<Longrightarrow>
     \<exists>dp. perpendicular_distance p a b = Some dp \<and> dp \<le> d"
proof (induction ps arbitrary: i dmax index)
  case Nil
  then show ?case by simp
next
  case (Cons q ps)
  from Cons.prems(1) obtain dq where dq: "perpendicular_distance q a b = Some dq"
    and rest: "farthest a b ps (Suc i) (if dmax < dq then dq else dmax)
                 (if dmax < dq then i else index) = Some (d, k)"
    by (auto split: Option.bind_splits if_splits)
  show ?case
  proof (cases "p = q")
    case True
    from farthest_grows [OF rest] have "dq \<le> d" by (auto split: if_splits)
    with True dq show ?thesis by simp
  next
    case False
    with Cons.prems(2) have "p \<in> set ps" by simp
    from Cons.IH [OF rest this] show ?thesis .
  qed
qed


lemma no_three_collinear_tl: "no_three_collinear (x # xs) \<Longrightarrow> no_three_collinear xs"
  by (cases xs rule: no_three_collinear.cases) simp_all

lemma no_three_collinear_drop: "no_three_collinear xs \<Longrightarrow> no_three_collinear (drop n xs)"
proof (induction n arbitrary: xs)
  case 0
  then show ?case by simp
next
  case (Suc n)
  then show ?case
    by (cases xs) (auto dest: no_three_collinear_tl)
qed

lemma no_three_collinear_take: "no_three_collinear xs \<Longrightarrow> no_three_collinear (take n xs)"
proof (induction xs arbitrary: n rule: no_three_collinear.induct)
  case (1 a b c ps)
  show ?case
  proof (cases n)
    case 0
    then show ?thesis by simp
  next
    case (Suc m)
    from "1.prems" have nc: "\<not> collinear3 a b c" and rest: "no_three_collinear (b # c # ps)"
      by simp_all
    note ih = "1.IH" [OF rest, of m]
    show ?thesis
    proof (cases m)
      case 0
      with Suc show ?thesis by simp
    next
      case m1: (Suc m')
      show ?thesis
      proof (cases m')
        case 0
        with Suc m1 show ?thesis by simp
      next
        case (Suc m'')
        with ih nc m1 \<open>n = Suc m\<close> show ?thesis by simp
      qed
    qed
  qed
qed (simp_all add: take_Cons')


lemma collinear3_xy:
  assumes "point_xy a = Some (ax, ay)" "point_xy b = Some (bx, by)" "point_xy c = Some (cx, cy)"
  shows "collinear3 a b c \<longleftrightarrow> (bx - ax) * (cy - ay) - (by - ay) * (cx - ax) = 0"
  using assms by (simp add: collinear3_def)

lemma interior_off_chord:
  assumes pts: "list_all is_point (q0 # q1 # q2 # rest)"
    and nc: "\<not> collinear3 q0 q1 q2"
    and far: "farthest q0 (last (q2 # rest)) (q1 # butlast (q2 # rest)) 1 0 0 = Some (dmax, index)"
  shows "0 < dmax"
proof (rule ccontr)
  assume "\<not> 0 < dmax"
  then have le: "dmax \<le> 0" by simp
  from pts obtain x0 y0 x1 y1 x2 y2 where
    xy: "point_xy q0 = Some (x0, y0)" "point_xy q1 = Some (x1, y1)" "point_xy q2 = Some (x2, y2)"
    by (auto simp: is_point_def)
  have "last (q2 # rest) \<in> set (q2 # rest)" by (rule last_in_set) simp
  with pts have "is_point (last (q2 # rest))" by (auto simp: list_all_iff)
  then obtain xe ye where xe: "point_xy (last (q2 # rest)) = Some (xe, ye)"
    by (auto simp: is_point_def)
  have zero: "chord_distance c (x0, y0) (xe, ye) = 0"
    if "p \<in> set (q1 # butlast (q2 # rest))" "point_xy p = Some c" for p c
  proof -
    from farthest_max [OF far that(1)] obtain dp where
      "perpendicular_distance p q0 (last (q2 # rest)) = Some dp" "dp \<le> dmax" by blast
    with that(2) xy(1) xe have "chord_distance c (x0, y0) (xe, ye) \<le> dmax"
      by (simp add: perpendicular_distance_xy)
    with le chord_distance_nonneg [of c "(x0, y0)" "(xe, ye)"] show ?thesis by simp
  qed
  have z1: "chord_distance (x1, y1) (x0, y0) (xe, ye) = 0"
    by (rule zero [of q1]) (simp_all add: xy)
  have "(x1 - x0) * (y2 - y0) - (y1 - y0) * (x2 - x0) = 0"
  proof (cases rest)
    case Nil
    with xe xy(3) have "xe = x2" "ye = y2" by simp_all
    with chord_distance_zero_end [OF z1] show ?thesis by simp
  next
    case (Cons r rs)
    then have "q2 \<in> set (q1 # butlast (q2 # rest))" by simp
    then have "chord_distance (x2, y2) (x0, y0) (xe, ye) = 0"
      by (rule zero) (simp add: xy)
    from chord_distance_zero_pair [OF z1 this] show ?thesis .
  qed
  with nc xy show False by (simp add: collinear3_xy)
qed

lemma interior_points:
  assumes "3 \<le> length points"
  shows "\<exists>q0 q1 q2 rest. points = q0 # q1 # q2 # rest
     \<and> points ! 0 = q0 \<and> points ! (length points - 1) = last (q2 # rest)
     \<and> take (length points - 2) (drop 1 points) = q1 # butlast (q2 # rest)"
proof -
  from assms obtain q0 q1 q2 rest where p: "points = q0 # q1 # q2 # rest"
    by (cases points; cases "tl points"; cases "tl (tl points)") auto
  have "points ! (length points - 1) = last (q2 # rest)"
    unfolding p by (simp add: last_conv_nth nth_Cons')
  moreover have "take (length points - 2) (drop 1 points) = q1 # butlast (q2 # rest)"
    unfolding p by (simp add: butlast_conv_take)
  ultimately show ?thesis using p by simp
qed

lemma douglas_peucker_zero:
  "list_all is_point points \<Longrightarrow> no_three_collinear points \<Longrightarrow>
     douglas_peucker points 0 = Some points"
proof (induction points "0::real" rule: douglas_peucker.induct)
  case (1 points)
  show ?case
  proof (cases "length points \<le> 2")
    case True
    then show ?thesis by (simp add: douglas_peucker.simps [of points])
  next
    case False
    then have "3 \<le> length points" by simp
    from interior_points [OF this] obtain q0 q1 q2 rest where p: "points = q0 # q1 # q2 # rest"
      and e0: "points ! 0 = q0" and e1: "points ! (length points - 1) = last (q2 # rest)"
      and mid: "take (length points - 2) (drop 1 points) = q1 # butlast (q2 # rest)"
      by blast
    from "1.prems"(1) False have ends: "is_point (points ! 0)" "is_point (points ! (length points - 1))"
      by (auto intro: list_all_nth)
    from "1.prems"(1) have "list_all is_point (take (length points - 2) (drop 1 points))"
      by (intro list_all_take list_all_drop)
    from farthest_total [OF this ends] obtain dmax index where
      far: "farthest (points ! 0) (points ! (length points - 1))
              (take (length points - 2) (drop 1 points)) 1 0 0 = Some (dmax, index)"
      by blast
    from "1.prems" p have "list_all is_point (q0 # q1 # q2 # rest)" "\<not> collinear3 q0 q1 q2"
      by simp_all
    moreover from far have "farthest q0 (last (q2 # rest)) (q1 # butlast (q2 # rest)) 1 0 0
        = Some (dmax, index)"
      by (simp only: e0 e1 mid)
    ultimately have pos: "0 < dmax" by (rule interior_off_chord)
    with farthest_grows [OF far] have nz: "index \<noteq> 0" by auto
    from farthest_index [OF far] nz False have ix: "index < length points" by auto
    have "douglas_peucker (take (index + 1) points) 0 = Some (take (index + 1) points)"
      using "1.prems" by (intro "1.hyps"(1) [OF False far refl pos nz]
          list_all_take no_three_collinear_take)
    moreover have "douglas_peucker (drop index points) 0 = Some (drop index points)"
      using "1.prems" by (intro "1.hyps"(2) [OF False far refl pos nz calculation]
          list_all_drop no_three_collinear_drop)
    moreover have "butlast (take (index + 1) points) @ drop index points = points"
      using ix by (simp add: butlast_take)
    ultimately show ?thesis
      using False far pos nz by (simp add: douglas_peucker.simps [of points])
  qed
qed

text \<open>
  C9. On a sequence of points of which no three consecutive ones are exactly collinear,
  \<^verbatim>\<open>simplify_line\<close> with tolerance 0 returns the sequence unchanged. Coordinates are
  exact reals here, so "exactly collinear" is a zero cross product.
\<close>

theorem zero_tolerance_fixed_point:
  assumes "list_all is_point points" and "no_three_collinear points"
  shows "simplify_line (JArr points) 0 = Some (JArr points)"
  using douglas_peucker_zero [OF assms] by (simp add: simplify_line_list)

theorem zero_tolerance_fixed_point_witness:
  "list_all is_point [JArr [JNum 0, JNum 0], JArr [JNum 1, JNum 1], JArr [JNum 2, JNum 0],
       JArr [JNum 3, JNum 5]]
   \<and> no_three_collinear [JArr [JNum 0, JNum 0], JArr [JNum 1, JNum 1], JArr [JNum 2, JNum 0],
       JArr [JNum 3, JNum 5]]
   \<and> simplify_line (JArr [JArr [JNum 0, JNum 0], JArr [JNum 1, JNum 1], JArr [JNum 2, JNum 0],
       JArr [JNum 3, JNum 5]]) 0
     = Some (JArr [JArr [JNum 0, JNum 0], JArr [JNum 1, JNum 1], JArr [JNum 2, JNum 0],
       JArr [JNum 3, JNum 5]])"
proof -
  have a: "list_all is_point [JArr [JNum 0, JNum 0], JArr [JNum 1, JNum 1], JArr [JNum 2, JNum 0],
       JArr [JNum 3, JNum 5]]"
    by (simp add: is_point_def)
  have b: "no_three_collinear [JArr [JNum 0, JNum 0], JArr [JNum 1, JNum 1], JArr [JNum 2, JNum 0],
       JArr [JNum 3, JNum 5]]"
    by (simp add: collinear3_def)
  from zero_tolerance_fixed_point [OF a b] a b show ?thesis by simp
qed

section \<open>Counting\<close>

lemma py_get_dict_member [simp]: "py_get (JObj kvs) k d = Some (dict_member kvs k d)"
  by (simp add: dict_member_def)

declare py_get.simps(1) [simp del]

lemma count_coordinates_payload:
  assumes "kvs \<noteq> []" "dict_member kvs ''type'' (JStr []) \<noteq> JStr ''GeometryCollection''"
  shows "count_coordinates (JObj kvs)
          = count_payload (dict_member kvs ''type'' (JStr [])) (dict_member kvs ''coordinates'' (JArr []))"
  using assms
  by (simp add: count_coordinates.simps [of "JObj kvs"] count_payload_def sum_len_def [abs_def]
      sum_sum_len_def sum_parts_def part_len_def [abs_def])

lemma count_coordinates_collection:
  assumes "dict_member kvs ''type'' (JStr []) = JStr ''GeometryCollection''"
  shows "count_coordinates (JObj kvs) =
           (if kvs = [] then Some 0 else do {
              gs \<leftarrow> py_iter (dict_member kvs ''geometries'' (JArr []));
              ns \<leftarrow> those (map count_coordinates gs);
              Some (sum_list ns) })"
  using assms
  by (simp add: count_coordinates.simps [of "JObj kvs"])

text \<open>
  A missing (\<^verbatim>\<open>None\<close>) or empty geometry counts 0; so does a geometry whose tag is none
  of the seven names, whatever it carries; so does a LineString, Polygon, MultiPolygon,
  MultiPoint or MultiLineString whose \<^verbatim>\<open>coordinates\<close> member is unset: each of these five
  branches counts the default \<^verbatim>\<open>[]\<close> that line 29 reads for an absent member.
\<close>

lemma count_coordinates_zero:
  shows "(\<not> py_bool g \<longrightarrow> count_coordinates g = Some 0)
    \<and> (kvs \<noteq> [] \<and> (case map_of kvs ''type'' of Some ty \<Rightarrow> ty | None \<Rightarrow> JStr []) \<notin> set [JStr ''Point'',
          JStr ''LineString'', JStr ''Polygon'', JStr ''MultiPolygon'', JStr ''MultiPoint'',
          JStr ''MultiLineString'', JStr ''GeometryCollection'']
        \<longrightarrow> count_coordinates (JObj kvs) = Some 0)
    \<and> (map_of kvs ''coordinates'' = None \<and> (\<exists>ty \<in> set [''LineString'', ''Polygon'',
          ''MultiPolygon'', ''MultiPoint'', ''MultiLineString'']. map_of kvs ''type'' = Some (JStr ty))
        \<longrightarrow> count_coordinates (JObj kvs) = Some 0)"
proof (intro conjI impI)
  assume "\<not> py_bool g"
  then show "count_coordinates g = Some 0"
    by (simp add: count_coordinates.simps [of g])
next
  assume "kvs \<noteq> [] \<and> (case map_of kvs ''type'' of Some ty \<Rightarrow> ty | None \<Rightarrow> JStr []) \<notin> set [JStr ''Point'',
          JStr ''LineString'', JStr ''Polygon'', JStr ''MultiPolygon'', JStr ''MultiPoint'',
          JStr ''MultiLineString'', JStr ''GeometryCollection'']"
  then show "count_coordinates (JObj kvs) = Some 0"
    by (simp add: count_coordinates.simps [of "JObj kvs"] dict_member_def)
next
  assume a: "map_of kvs ''coordinates'' = None \<and> (\<exists>ty \<in> set [''LineString'', ''Polygon'',
          ''MultiPolygon'', ''MultiPoint'', ''MultiLineString'']. map_of kvs ''type'' = Some (JStr ty))"
  then have "kvs \<noteq> []" by auto
  with a show "count_coordinates (JObj kvs) = Some 0"
    by (auto simp: count_coordinates.simps [of "JObj kvs"] dict_member_def)
qed

text \<open>
  C6. The claim fails at a geometry tagged Point whose \<^verbatim>\<open>coordinates\<close> member is unset:
  \<^verbatim>\<open>count_coordinates({'type': 'Point'})\<close> is 1, where the claim gives 0. Line 31 returns 1
  at the tag, before the coordinates are looked at, so the geometry is counted for a
  coordinate pair it does not have. The function is documented to count all coordinate
  pairs of a geometry, and each of the five sibling branches returns 0 on the same input
  under its own tag.
\<close>

theorem count_coordinates_point_unset:
  "count_coordinates (JObj [(''type'', JStr ''Point'')]) = Some 1
   \<and> count_coordinates (JObj [(''type'', JStr ''MultiPoint'')]) = Some 0
   \<and> count_coordinates (JObj [(''type'', JStr ''LineString'')]) = Some 0
   \<and> count_coordinates (JObj [(''type'', JStr ''MultiLineString'')]) = Some 0
   \<and> count_coordinates (JObj [(''type'', JStr ''Polygon'')]) = Some 0
   \<and> count_coordinates (JObj [(''type'', JStr ''MultiPolygon'')]) = Some 0"
  by (simp add: count_coordinates.simps [of "JObj [(x, JStr y)]" for x y] dict_member_def)

section \<open>Rounding\<close>

lemma round_half_even_of_int [simp]: "round_half_even (of_int n) = n"
  by (simp add: round_half_even_def)

lemma py_round_idem [simp]: "py_round (py_round x p) p = py_round x p"
  by (simp add: py_round_def)

lemma round_coord_list: "round_coord p (JArr cs) = JArr (map (round_coord p) cs)"
proof -
  have "(case py_number c of Some x \<Rightarrow> JNum (py_round x p) | None \<Rightarrow> round_coord p c)
          = round_coord p c" for c
    by (cases c) simp_all
  then show ?thesis by simp
qed

lemma round_coord_idem: "round_coord p (round_coord p c) = round_coord p c"
proof (induction c)
  case (JArr cs)
  then show ?case by (simp add: round_coord_list del: round_coord.simps(3))
qed simp_all

lemma py_len_round_coord [simp]: "py_len (round_coord p v) = py_len v"
  by (cases v) (simp_all add: round_coord_list del: round_coord.simps(3))

lemma py_iter_round_coord:
  "py_iter (round_coord p v) = map_option (map (round_coord p)) (py_iter v)"
  by (cases v) (simp_all add: round_coord_list comp_def del: round_coord.simps(3))

lemma nesting_depth_round_coord [simp]: "nesting_depth (round_coord p c) = nesting_depth c"
proof (induction c)
  case (JArr cs)
  then have "map nesting_depth (map (round_coord p) cs) = map nesting_depth cs"
    by simp
  then show ?case by (simp only: round_coord_list nesting_depth.simps)
qed simp_all

lemma sum_len_round_coord [simp]: "sum_len (round_coord p c) = sum_len c"
  by (cases "py_iter c") (simp_all add: sum_len_def py_iter_round_coord comp_def)

lemma sum_sum_len_round_coord [simp]: "sum_sum_len (round_coord p c) = sum_sum_len c"
  by (cases "py_iter c") (simp_all add: sum_sum_len_def py_iter_round_coord comp_def)

lemma part_len_round_coord [simp]: "part_len (round_coord p part) = part_len part"
  by (cases part) (simp_all add: part_len_def round_coord_list del: round_coord.simps(3))

lemma sum_parts_round_coord [simp]: "sum_parts (round_coord p c) = sum_parts c"
  by (cases "py_iter c") (simp_all add: sum_parts_def py_iter_round_coord comp_def)

lemma count_payload_round_coord [simp]:
  "count_payload ty (round_coord p c) = count_payload ty c"
  by (simp add: count_payload_def)

lemma dict_member_update:
  "dict_member (AList.update k v kvs) k' d = (if k' = k then v else dict_member kvs k' d)"
  by (simp add: dict_member_def update_conv')

lemma count_round_dict_members:
  assumes "map_of kvs ''coordinates'' = Some c"
  shows "count_coordinates (JObj (AList.update ''coordinates'' (round_coord p c) kvs))
          = count_coordinates (JObj kvs)"
proof -
  have ne: "kvs \<noteq> []" using assms by auto
  have c: "dict_member kvs ''coordinates'' (JArr []) = c" using assms by (simp add: dict_member_def)
  show ?thesis
  proof (cases "dict_member kvs ''type'' (JStr []) = JStr ''GeometryCollection''")
    case True
    then show ?thesis
      by (simp add: count_coordinates_collection dict_member_update ne)
  next
    case False
    then show ?thesis
      by (simp add: count_coordinates_payload dict_member_update ne c)
  qed
qed

lemma round_coordinates_dict:
  "round_coordinates (JObj kvs) p =
     (case map_of kvs ''coordinates'' of
        None \<Rightarrow> Some (JObj kvs)
      | Some c \<Rightarrow> if py_bool c then Some (JObj (AList.update ''coordinates'' (round_coord p c) kvs))
                  else Some (JObj kvs))"
  by (cases kvs) (auto simp: round_coordinates_def dict_member_def split: option.splits)

lemma round_coordinates_other:
  "\<forall>kvs. g \<noteq> JObj kvs \<Longrightarrow> round_coordinates g p = (if py_bool g then None else Some g)"
  by (cases g) (simp_all add: round_coordinates_def)

text \<open>
  C8. Rounding keeps the shape: the rounded geometry has the same coordinate count as the
  input (both counts fail together when the payload is malformed), and its
  \<^verbatim>\<open>coordinates\<close> payload has the same nesting depth.
\<close>

theorem round_preserves_shape:
  assumes "round_coordinates g p = Some g'"
  shows "count_coordinates g' = count_coordinates g
     \<and> map_option nesting_depth (py_get g' ''coordinates'' JNull)
         = map_option nesting_depth (py_get g ''coordinates'' JNull)"
proof (cases g)
  case (JObj kvs)
  with assms show ?thesis
    by (auto simp: round_coordinates_dict count_round_dict_members dict_member_def update_conv'
        split: option.splits if_splits)
qed (use assms in \<open>auto simp: round_coordinates_other split: if_splits\<close>)

lemma round_linestring:
  "round_coordinates (JObj [(''type'', JStr ''LineString''),
       (''coordinates'', JArr [JArr [JNum 12.3456789, JNum (- 45.6789012)], JArr [JNum 0, JNum 0.5]])]) 4
     = Some (JObj [(''type'', JStr ''LineString''),
       (''coordinates'', JArr [JArr [JNum 12.3457, JNum (- 45.6789)], JArr [JNum 0, JNum 0.5]])])"
  by (simp add: round_coordinates_dict py_round_def round_half_even_def)

theorem round_preserves_shape_witness:
  "round_coordinates (JObj [(''type'', JStr ''LineString''),
       (''coordinates'', JArr [JArr [JNum 12.3456789, JNum (- 45.6789012)], JArr [JNum 0, JNum 0.5]])]) 4
     = Some (JObj [(''type'', JStr ''LineString''),
       (''coordinates'', JArr [JArr [JNum 12.3457, JNum (- 45.6789)], JArr [JNum 0, JNum 0.5]])])
   \<and> count_coordinates (JObj [(''type'', JStr ''LineString''),
       (''coordinates'', JArr [JArr [JNum 12.3457, JNum (- 45.6789)], JArr [JNum 0, JNum 0.5]])])
     = Some 2
   \<and> count_coordinates (JObj [(''type'', JStr ''LineString''),
       (''coordinates'', JArr [JArr [JNum 12.3456789, JNum (- 45.6789012)], JArr [JNum 0, JNum 0.5]])])
     = Some 2
   \<and> nesting_depth (JArr [JArr [JNum 12.3457, JNum (- 45.6789)], JArr [JNum 0, JNum 0.5]]) = 2
   \<and> nesting_depth (JArr [JArr [JNum 12.3456789, JNum (- 45.6789012)], JArr [JNum 0, JNum 0.5]]) = 2"
  using round_preserves_shape [OF round_linestring] round_linestring
  by (simp add: count_coordinates_payload dict_member_def count_payload_def)

lemma round_coordinates_twice:
  "round_coordinates g p \<bind> (\<lambda>g'. round_coordinates g' p) = round_coordinates g p"
proof (cases g)
  case (JObj kvs)
  then show ?thesis
    by (auto simp: round_coordinates_dict update_conv' round_coord_idem split: option.splits)
qed (auto simp: round_coordinates_other)

lemma round_coordinates_returns: "\<exists>g'. round_coordinates (JObj kvs) p = Some g'"
  by (simp add: round_coordinates_dict split: option.split)

text \<open>
  C7. Rounding twice with the same precision gives what rounding once gives, for every
  value and every precision (negative ones included); and on a record the first rounding
  does return a result, which the second one returns again.
\<close>

theorem round_idempotent:
  "round_coordinates g p \<bind> (\<lambda>g'. round_coordinates g' p) = round_coordinates g p
   \<and> (\<exists>g'. round_coordinates (JObj kvs) p = Some g' \<and> round_coordinates g' p = Some g')"
proof -
  obtain g' where g': "round_coordinates (JObj kvs) p = Some g'"
    using round_coordinates_returns by blast
  with round_coordinates_twice [of "JObj kvs" p] have "round_coordinates g' p = Some g'"
    by simp
  with g' round_coordinates_twice show ?thesis by blast
qed

section \<open>Simplification\<close>

lemma those_map_Some:
  "those (map f xs) = Some ys \<longleftrightarrow> list_all2 (\<lambda>x y. f x = Some y) xs ys"
proof (induction xs arbitrary: ys)
  case Nil
  then show ?case by auto
next
  case (Cons x xs)
  then show ?case
    by (cases ys) (auto split: option.splits)
qed

lemma those_map_mono:
  assumes "list_all2 (\<lambda>x y. \<forall>n. f x = Some n \<longrightarrow> (\<exists>m. g y = Some m \<and> m \<le> n)) xs ys"
    and "those (map f xs) = Some ns"
  shows "\<exists>ms. those (map g ys) = Some ms \<and> sum_list ms \<le> (sum_list ns :: nat)"
  using assms
proof (induction arbitrary: ns rule: list_all2_induct)
  case Nil
  then show ?case by simp
next
  case (Cons x xs y ys)
  from Cons.prems obtain n ns' where n: "f x = Some n" and ns': "those (map f xs) = Some ns'"
    and ns: "ns = n # ns'"
    by (auto split: option.splits)
  from Cons.hyps(1) n obtain m where m: "g y = Some m" "m \<le> n" by blast
  from Cons.IH [OF ns'] obtain ms where ms: "those (map g ys) = Some ms" "sum_list ms \<le> sum_list ns'"
    by blast
  from m ms ns show ?case by simp
qed

lemma those_map_filter:
  "those (map g ys) = Some ms \<Longrightarrow>
     \<exists>ms'. those (map g (filter P ys)) = Some ms' \<and> sum_list ms' \<le> (sum_list ms :: nat)"
proof (induction ys arbitrary: ms)
  case Nil
  then show ?case by simp
next
  case (Cons y ys)
  from Cons.prems obtain m ms0 where m: "g y = Some m" and ms0: "those (map g ys) = Some ms0"
    and ms: "ms = m # ms0"
    by (auto split: option.splits)
  from Cons.IH [OF ms0] obtain ms' where "those (map g (filter P ys)) = Some ms'"
    "sum_list ms' \<le> sum_list ms0" by blast
  with m ms show ?case by auto
qed

lemma simplify_line_cases:
  assumes "simplify_line v t = Some r"
  shows "r = v \<or> (\<exists>ps rs. v = JArr ps \<and> r = JArr rs \<and> subseq rs ps \<and> 2 \<le> length rs)"
proof -
  from assms obtain n where n: "py_len v = Some n"
    by (auto simp: simplify_line_def split: Option.bind_splits)
  show ?thesis
  proof (cases "n \<le> 2")
    case True
    with assms n show ?thesis by (simp add: simplify_line_def)
  next
    case False
    with assms n obtain ps rs where v: "v = JArr ps" and r: "r = JArr rs"
      and dp: "douglas_peucker ps t = Some rs"
      by (auto simp: simplify_line_def split: json.splits)
    from v n False have "2 \<le> length ps" by simp
    with douglas_peucker_shape [OF dp] v r show ?thesis by blast
  qed
qed

lemma simplify_or_keep_cases:
  assumes "simplify_or_keep k t v = Some r"
  shows "r = v \<or> (\<exists>ps rs. v = JArr ps \<and> r = JArr rs \<and> subseq rs ps \<and> k \<le> length rs)"
proof -
  from assms obtain s n where s: "simplify_line v t = Some s" and n: "py_len s = Some n"
    and r: "r = (if k \<le> n then s else v)"
    by (auto simp: simplify_or_keep_def split: Option.bind_splits)
  from simplify_line_cases [OF s] r n show ?thesis
    by (auto split: if_splits)
qed

lemma simplify_or_keep_len:
  assumes "simplify_or_keep k t v = Some r" "py_len v = Some n"
  shows "\<exists>m. py_len r = Some m \<and> m \<le> n"
  using simplify_or_keep_cases [OF assms(1)] assms(2)
  by (auto dest: list_emb_length)

lemma simplify_or_keep_part_len:
  assumes "simplify_or_keep k t v = Some r"
  shows "part_len r \<le> part_len v"
  using simplify_or_keep_cases [OF assms]
  by (auto simp: part_len_def dest: list_emb_length)

lemma sum_len_simplified:
  assumes "list_all2 (\<lambda>x y. simplify_or_keep k t x = Some y) rings rings'"
    and "py_iter p = Some rings" and "sum_len p = Some n"
  shows "\<exists>m. sum_len (JArr rings') = Some m \<and> m \<le> n"
proof -
  from assms(2,3) obtain ns where ns: "those (map py_len rings) = Some ns" and n: "n = sum_list ns"
    by (auto simp: sum_len_def split: Option.bind_splits)
  have "list_all2 (\<lambda>x y. \<forall>n. py_len x = Some n \<longrightarrow> (\<exists>m. py_len y = Some m \<and> m \<le> n)) rings rings'"
    using assms(1) by (rule list_all2_mono) (auto dest: simplify_or_keep_len)
  from those_map_mono [OF this ns] n show ?thesis
    by (auto simp: sum_len_def)
qed

lemma sum_parts_simplified:
  assumes "list_all2 (\<lambda>x y. simplify_or_keep k t x = Some y) parts parts'"
  shows "sum_list (map part_len parts') \<le> sum_list (map part_len parts)"
  using assms
  by (induction rule: list_all2_induct) (auto dest: simplify_or_keep_part_len intro: add_mono)


lemma count_after_update:
  assumes "dict_member kvs ''type'' (JStr []) \<noteq> JStr ''GeometryCollection''"
  shows "count_coordinates (JObj (AList.update ''coordinates'' v kvs))
           = count_payload (dict_member kvs ''type'' (JStr [])) v"
  using assms by (simp add: count_coordinates_payload dict_member_update)

lemma sum_sum_len_simplified:
  assumes "list_all2 (\<lambda>p sp. \<exists>rings. py_iter p = Some rings
              \<and> list_all2 (\<lambda>x y. simplify_or_keep k t x = Some y) rings sp) polygons sps"
    and "those (map sum_len polygons) = Some ns"
  shows "\<exists>m. sum_sum_len (JArr (map JArr (filter (\<lambda>sp. sp \<noteq> []) sps))) = Some m
           \<and> m \<le> sum_list ns"
proof -
  have "list_all2 (\<lambda>p sp. \<forall>n. sum_len p = Some n \<longrightarrow> (\<exists>m. sum_len (JArr sp) = Some m \<and> m \<le> n))
          polygons sps"
    using assms(1) by (rule list_all2_mono) (auto dest: sum_len_simplified)
  from those_map_mono [OF this assms(2)] obtain ms where
    ms: "those (map (\<lambda>sp. sum_len (JArr sp)) sps) = Some ms" "sum_list ms \<le> sum_list ns"
    by blast
  from those_map_filter [OF ms(1), of "\<lambda>sp. sp \<noteq> []"] obtain ms' where
    "those (map (\<lambda>sp. sum_len (JArr sp)) (filter (\<lambda>sp. sp \<noteq> []) sps)) = Some ms'"
    "sum_list ms' \<le> sum_list ms" by blast
  with ms(2) show ?thesis
    by (auto simp: sum_sum_len_def comp_def)
qed

text \<open>
  C5. Whenever \<^verbatim>\<open>simplify_geometry\<close> returns and the input has a count, the result has
  a count too, and it is not larger. This holds for every tolerance, so for every
  tolerance \<open>\<ge> 0\<close>.
\<close>

theorem simplify_never_adds:
  assumes "simplify_geometry g tolerance = Some g'" and "count_coordinates g = Some n"
  shows "\<exists>n'. count_coordinates g' = Some n' \<and> n' \<le> n"
proof (cases g)
  case (JObj kvs)
  define ty where "ty = dict_member kvs ''type'' (JStr [])"
  define coords where "coords = dict_member kvs ''coordinates'' (JArr [])"
  show ?thesis
  proof (cases "kvs = [] \<or> ty \<notin> set [JStr ''LineString'', JStr ''MultiLineString'',
      JStr ''Polygon'', JStr ''MultiPolygon'']")
    case True
    have "g' = g"
    proof (cases "kvs = []")
      case True
      with assms(1) JObj show ?thesis by (simp add: simplify_geometry_def)
    next
      case False
      with True assms(1) JObj show ?thesis
        by (auto simp: simplify_geometry_def ty_def split: if_splits)
    qed
    with assms(2) show ?thesis by simp
  next
    case False
    then have ne: "kvs \<noteq> []" and gc: "ty \<noteq> JStr ''GeometryCollection''" by auto
    from assms(2) JObj ne gc have n: "count_payload ty coords = Some n"
      by (simp add: count_coordinates_payload ty_def coords_def)
    have upd: "count_coordinates (JObj (AList.update ''coordinates'' v kvs)) = count_payload ty v" for v
      using gc by (simp add: count_after_update ty_def)
    from False consider (line) "ty = JStr ''LineString''" | (mline) "ty = JStr ''MultiLineString''"
      | (poly) "ty = JStr ''Polygon''" | (mpoly) "ty = JStr ''MultiPolygon''"
      by auto
    then show ?thesis
    proof cases
      case line
      from n line have len: "py_len coords = Some n" by (simp add: count_payload_def)
      from assms(1) JObj ne line obtain s m where s: "simplify_line coords tolerance = Some s"
        and m: "py_len s = Some m"
        and g': "g' = (if 2 \<le> m then JObj (AList.update ''coordinates'' s kvs) else g)"
        by (auto simp: simplify_geometry_def ty_def coords_def split: Option.bind_splits if_splits)
      from simplify_line_cases [OF s] len m have "m \<le> n"
        by (auto dest: list_emb_length)
      with g' m assms(2) line show ?thesis
        by (auto simp: upd count_payload_def)
    next
      case mline
      from n mline obtain parts where parts: "py_iter coords = Some parts"
        and nn: "n = sum_list (map part_len parts)"
        by (auto simp: count_payload_def sum_parts_def split: Option.bind_splits)
      from assms(1) JObj ne mline parts obtain sc where
        sc: "those (map (simplify_or_keep 2 tolerance) parts) = Some sc"
        and g': "g' = JObj (AList.update ''coordinates'' (JArr sc) kvs)"
        by (auto simp: simplify_geometry_def ty_def coords_def split: Option.bind_splits)
      from sc have "list_all2 (\<lambda>x y. simplify_or_keep 2 tolerance x = Some y) parts sc"
        by (simp add: those_map_Some)
      from sum_parts_simplified [OF this] g' nn mline show ?thesis
        by (simp add: upd count_payload_def sum_parts_def)
    next
      case poly
      from n poly obtain rings where rings: "py_iter coords = Some rings"
        and sl: "sum_len coords = Some n"
        by (auto simp: count_payload_def sum_len_def split: Option.bind_splits)
      from assms(1) JObj ne poly rings obtain sc where
        sc: "those (map (simplify_or_keep 4 tolerance) rings) = Some sc"
        and g': "g' = JObj (AList.update ''coordinates'' (JArr sc) kvs)"
        by (auto simp: simplify_geometry_def ty_def coords_def split: Option.bind_splits)
      from sc have "list_all2 (\<lambda>x y. simplify_or_keep 4 tolerance x = Some y) rings sc"
        by (simp add: those_map_Some)
      from sum_len_simplified [OF this rings sl] g' poly show ?thesis
        by (simp add: upd count_payload_def)
    next
      case mpoly
      from n mpoly obtain polygons ns where polygons: "py_iter coords = Some polygons"
        and ns: "those (map sum_len polygons) = Some ns" and nn: "n = sum_list ns"
        by (auto simp: count_payload_def sum_sum_len_def split: Option.bind_splits)
      from assms(1) JObj ne mpoly polygons obtain sps where
        sps: "those (map (\<lambda>polygon. py_iter polygon \<bind>
                 (\<lambda>rings. those (map (simplify_or_keep 4 tolerance) rings))) polygons) = Some sps"
        and g': "g' = JObj (AList.update ''coordinates''
                   (JArr (map JArr (filter (\<lambda>sp. sp \<noteq> []) sps))) kvs)"
        by (auto simp: simplify_geometry_def ty_def coords_def split: Option.bind_splits)
      from sps have "list_all2 (\<lambda>p sp. \<exists>rings. py_iter p = Some rings
              \<and> list_all2 (\<lambda>x y. simplify_or_keep 4 tolerance x = Some y) rings sp) polygons sps"
        by (auto simp: those_map_Some Option.bind_eq_Some_conv elim!: list_all2_mono)
      from sum_sum_len_simplified [OF this ns] g' nn mpoly show ?thesis
        by (simp add: upd count_payload_def)
    qed
  qed
next
  case JNull
  with assms show ?thesis by (auto simp: simplify_geometry_def)
next
  case (JBool b)
  with assms show ?thesis by (auto simp: simplify_geometry_def split: if_splits)
next
  case (JNum x)
  with assms show ?thesis by (auto simp: simplify_geometry_def split: if_splits)
next
  case (JStr x)
  with assms show ?thesis by (auto simp: simplify_geometry_def split: if_splits)
next
  case (JArr x)
  with assms show ?thesis by (auto simp: simplify_geometry_def split: if_splits)
qed

lemma simplify_linestring_example:
  "simplify_geometry (JObj [(''type'', JStr ''LineString''),
      (''coordinates'', JArr [JArr [JNum 0, JNum 0], JArr [JNum 1, JNum 1], JArr [JNum 2, JNum 0]])]) 2
   = Some (JObj [(''type'', JStr ''LineString''),
      (''coordinates'', JArr [JArr [JNum 0, JNum 0], JArr [JNum 2, JNum 0]])])"
  by (simp add: simplify_geometry_def dict_member_def simplify_line_list douglas_peucker.simps
      perpendicular_distance_xy)

lemma count_linestring_example:
  "count_coordinates (JObj [(''type'', JStr ''LineString''),
      (''coordinates'', JArr [JArr [JNum 0, JNum 0], JArr [JNum 1, JNum 1], JArr [JNum 2, JNum 0]])])
   = Some 3"
  by (simp add: count_coordinates_payload dict_member_def count_payload_def)

theorem simplify_never_adds_witness:
  "simplify_geometry (JObj [(''type'', JStr ''LineString''),
      (''coordinates'', JArr [JArr [JNum 0, JNum 0], JArr [JNum 1, JNum 1], JArr [JNum 2, JNum 0]])]) 2
   = Some (JObj [(''type'', JStr ''LineString''),
      (''coordinates'', JArr [JArr [JNum 0, JNum 0], JArr [JNum 2, JNum 0]])])
   \<and> count_coordinates (JObj [(''type'', JStr ''LineString''),
      (''coordinates'', JArr [JArr [JNum 0, JNum 0], JArr [JNum 1, JNum 1], JArr [JNum 2, JNum 0]])])
     = Some 3
   \<and> count_coordinates (JObj [(''type'', JStr ''LineString''),
      (''coordinates'', JArr [JArr [JNum 0, JNum 0], JArr [JNum 2, JNum 0]])]) = Some 2"
  using simplify_never_adds [OF simplify_linestring_example count_linestring_example]
    simplify_linestring_example count_linestring_example
  by (simp add: count_coordinates_payload dict_member_def count_payload_def)

lemma list_all2_filter_both:
  assumes "list_all2 R xs ys" and "\<And>x y. R x y \<Longrightarrow> P x = Q y"
  shows "list_all2 R (filter P xs) (filter Q ys)"
  using assms(1)
  by (induction rule: list_all2_induct) (auto dest: assms(2))

lemma list_all2_eq_Nil: "list_all2 R xs ys \<Longrightarrow> (xs = []) = (ys = [])"
  by (cases xs; cases ys) auto

lemma simplify_or_keep_collapsed:
  assumes "simplify_line ring t = Some s" "py_len s = Some m" "m < k"
  shows "simplify_or_keep k t ring = Some ring"
  using assms by (simp add: simplify_or_keep_def)

lemma simplify_or_keep_total:
  assumes "0 \<le> t" "list_all is_point ps"
  shows "\<exists>r. simplify_or_keep k t (JArr ps) = Some r"
proof -
  from douglas_peucker_total [OF assms] obtain rs where "douglas_peucker ps t = Some rs"
    by blast
  then show ?thesis by (simp add: simplify_or_keep_def simplify_line_list)
qed

lemma those_map_total:
  "(\<And>x. x \<in> set xs \<Longrightarrow> \<exists>y. f x = Some y) \<Longrightarrow> \<exists>ys. those (map f xs) = Some ys"
proof (induction xs)
  case Nil
  then show ?case by simp
next
  case (Cons x xs)
  then obtain y ys where "f x = Some y" "those (map f xs) = Some ys"
    by (metis list.set_intros)
  then show ?case by simp
qed

lemma simplify_multipolygon:
  assumes "map_of kvs ''type'' = Some (JStr ''MultiPolygon'')"
    and "map_of kvs ''coordinates'' = Some (JArr (map JArr polygons))"
  shows "simplify_geometry (JObj kvs) t =
     those (map (\<lambda>rings. those (map (simplify_or_keep 4 t) rings)) polygons) \<bind>
       (\<lambda>sps. Some (JObj (AList.update ''coordinates''
                  (JArr (map JArr (filter (\<lambda>sp. sp \<noteq> []) sps))) kvs)))"
proof -
  from assms(1) have "kvs \<noteq> []" by auto
  with assms show ?thesis
    by (simp add: simplify_geometry_def dict_member_def comp_def)
qed

text \<open>
  C1. For a MultiPolygon whose \<^verbatim>\<open>coordinates\<close> is a list of polygons, each a list of
  rings: whatever \<^verbatim>\<open>simplify_geometry\<close> returns is the same record with
  \<^verbatim>\<open>coordinates\<close> replaced; the polygons of the output are the polygons of the input that
  have a ring, in order, each with as many rings as before, and every ring is the result
  of the ring rule (its simplification when that keeps at least 4 points, the ring itself
  otherwise). So a polygon is dropped exactly when it has no ring. When every ring
  simplifies to fewer than 4 points, every ring is kept as it is, and the output is the
  input without its ring-less polygons. For a tolerance \<open>\<ge> 0\<close> and rings that are lists
  of points, the record is returned.
\<close>

theorem multipolygon_rings:
  assumes "map_of kvs ''type'' = Some (JStr ''MultiPolygon'')"
    and "map_of kvs ''coordinates'' = Some (JArr (map JArr polygons))"
  shows "(\<forall>g'. simplify_geometry (JObj kvs) tolerance = Some g' \<longrightarrow>
      (\<exists>out. g' = JObj (AList.update ''coordinates'' (JArr (map JArr out)) kvs)
         \<and> list_all2 (list_all2 (\<lambda>ring ring'. simplify_or_keep 4 tolerance ring = Some ring'))
              (filter (\<lambda>rings. rings \<noteq> []) polygons) out
         \<and> ((\<forall>rings \<in> set polygons. \<forall>ring \<in> set rings.
               \<exists>s m. simplify_line ring tolerance = Some s \<and> py_len s = Some m \<and> m < 4)
              \<longrightarrow> out = filter (\<lambda>rings. rings \<noteq> []) polygons)))
    \<and> (0 \<le> tolerance \<and> (\<forall>rings \<in> set polygons. \<forall>ring \<in> set rings.
               \<exists>ps. ring = JArr ps \<and> list_all is_point ps)
        \<longrightarrow> (\<exists>g'. simplify_geometry (JObj kvs) tolerance = Some g'))"
proof (intro conjI allI impI)
  fix g'
  assume "simplify_geometry (JObj kvs) tolerance = Some g'"
  then obtain sps where
    sps: "those (map (\<lambda>rings. those (map (simplify_or_keep 4 tolerance) rings)) polygons) = Some sps"
    and g': "g' = JObj (AList.update ''coordinates''
                  (JArr (map JArr (filter (\<lambda>sp. sp \<noteq> []) sps))) kvs)"
    by (auto simp: simplify_multipolygon [OF assms] split: Option.bind_splits)
  let ?R = "list_all2 (\<lambda>ring ring'. simplify_or_keep 4 tolerance ring = Some ring')"
  let ?out = "filter (\<lambda>sp. sp \<noteq> []) sps"
  from sps have all: "list_all2 ?R polygons sps"
    by (simp add: those_map_Some)
  then have kept: "list_all2 ?R (filter (\<lambda>rings. rings \<noteq> []) polygons) ?out"
    by (rule list_all2_filter_both) (auto dest: list_all2_eq_Nil)
  have same: "?out = filter (\<lambda>rings. rings \<noteq> []) polygons"
    if c: "\<forall>rings \<in> set polygons. \<forall>ring \<in> set rings.
               \<exists>s m. simplify_line ring tolerance = Some s \<and> py_len s = Some m \<and> m < 4"
  proof -
    have "list_all2 (list_all2 (=)) (filter (\<lambda>rings. rings \<noteq> []) polygons) ?out"
      using kept
    proof (rule list.rel_mono_strong)
      fix rings sp
      assume "rings \<in> set (filter (\<lambda>rings. rings \<noteq> []) polygons)" and r: "?R rings sp"
      then have "rings \<in> set polygons" by simp
      with c have col: "\<forall>ring \<in> set rings.
          \<exists>s m. simplify_line ring tolerance = Some s \<and> py_len s = Some m \<and> m < 4"
        by blast
      from r show "list_all2 (=) rings sp"
      proof (rule list.rel_mono_strong)
        fix ring ring'
        assume "ring \<in> set rings" and k: "simplify_or_keep 4 tolerance ring = Some ring'"
        with col obtain s m where "simplify_line ring tolerance = Some s" "py_len s = Some m" "m < 4"
          by blast
        then have "simplify_or_keep 4 tolerance ring = Some ring"
          by (rule simplify_or_keep_collapsed)
        with k show "ring = ring'" by simp
      qed
    qed
    then show ?thesis by (simp add: list.rel_eq)
  qed
  show "\<exists>out. g' = JObj (AList.update ''coordinates'' (JArr (map JArr out)) kvs)
         \<and> list_all2 ?R (filter (\<lambda>rings. rings \<noteq> []) polygons) out
         \<and> ((\<forall>rings \<in> set polygons. \<forall>ring \<in> set rings.
               \<exists>s m. simplify_line ring tolerance = Some s \<and> py_len s = Some m \<and> m < 4)
              \<longrightarrow> out = filter (\<lambda>rings. rings \<noteq> []) polygons)"
    using g' kept same by blast
next
  assume wf: "0 \<le> tolerance \<and> (\<forall>rings \<in> set polygons. \<forall>ring \<in> set rings.
               \<exists>ps. ring = JArr ps \<and> list_all is_point ps)"
  have "\<exists>sp. those (map (simplify_or_keep 4 tolerance) rings) = Some sp"
    if "rings \<in> set polygons" for rings
  proof (rule those_map_total)
    fix ring
    assume "ring \<in> set rings"
    with that wf obtain ps where "ring = JArr ps" "list_all is_point ps" by blast
    with wf show "\<exists>r. simplify_or_keep 4 tolerance ring = Some r"
      using simplify_or_keep_total [of tolerance ps 4] by simp
  qed
  then obtain sps where
    "those (map (\<lambda>rings. those (map (simplify_or_keep 4 tolerance) rings)) polygons) = Some sps"
    using those_map_total [of polygons "\<lambda>rings. those (map (simplify_or_keep 4 tolerance) rings)"]
    by blast
  then show "\<exists>g'. simplify_geometry (JObj kvs) tolerance = Some g'"
    by (simp add: simplify_multipolygon [OF assms])
qed


text \<open>
  The ring \<open>[[0,0],[3,4],[0,5],[0,0]]\<close> simplifies to two points under tolerance 10, and
  the MultiPolygon made of this one ring comes back with its polygon and ring in place.
\<close>

lemma sqrt_25: "sqrt 25 = 5"
  using real_sqrt_abs [of 5] by simp

lemma ring_collapses:
  "simplify_line (JArr [JArr [JNum 0, JNum 0], JArr [JNum 3, JNum 4], JArr [JNum 0, JNum 5],
       JArr [JNum 0, JNum 0]]) 10
     = Some (JArr [JArr [JNum 0, JNum 0], JArr [JNum 0, JNum 0]])"
  by (simp add: simplify_line_list douglas_peucker.simps perpendicular_distance_xy sqrt_25)

theorem multipolygon_collapse_keeps_polygon:
  "simplify_line (JArr [JArr [JNum 0, JNum 0], JArr [JNum 3, JNum 4], JArr [JNum 0, JNum 5],
       JArr [JNum 0, JNum 0]]) 10
     = Some (JArr [JArr [JNum 0, JNum 0], JArr [JNum 0, JNum 0]])
   \<and> simplify_geometry (JObj [(''type'', JStr ''MultiPolygon''),
       (''coordinates'', JArr [JArr [JArr [JArr [JNum 0, JNum 0], JArr [JNum 3, JNum 4],
           JArr [JNum 0, JNum 5], JArr [JNum 0, JNum 0]]]])]) 10
     = Some (JObj [(''type'', JStr ''MultiPolygon''),
       (''coordinates'', JArr [JArr [JArr [JArr [JNum 0, JNum 0], JArr [JNum 3, JNum 4],
           JArr [JNum 0, JNum 5], JArr [JNum 0, JNum 0]]]])])"
  by (simp add: simplify_geometry_def dict_member_def simplify_or_keep_def ring_collapses)

theorem multipolygon_rings_witness:
  "map_of [(''type'', JStr ''MultiPolygon''),
       (''coordinates'', JArr [JArr [JArr [JArr [JNum 0, JNum 0], JArr [JNum 3, JNum 4],
           JArr [JNum 0, JNum 5], JArr [JNum 0, JNum 0]]], JArr []])] ''type''
     = Some (JStr ''MultiPolygon'')
   \<and> (0::real) \<le> 10
   \<and> list_all is_point [JArr [JNum 0, JNum 0], JArr [JNum 3, JNum 4], JArr [JNum 0, JNum 5],
       JArr [JNum 0, JNum 0]]
   \<and> simplify_line (JArr [JArr [JNum 0, JNum 0], JArr [JNum 3, JNum 4], JArr [JNum 0, JNum 5],
       JArr [JNum 0, JNum 0]]) 10
     = Some (JArr [JArr [JNum 0, JNum 0], JArr [JNum 0, JNum 0]])
   \<and> simplify_geometry (JObj [(''type'', JStr ''MultiPolygon''),
       (''coordinates'', JArr [JArr [JArr [JArr [JNum 0, JNum 0], JArr [JNum 3, JNum 4],
           JArr [JNum 0, JNum 5], JArr [JNum 0, JNum 0]]], JArr []])]) 10
     = Some (JObj [(''type'', JStr ''MultiPolygon''),
       (''coordinates'', JArr [JArr [JArr [JArr [JNum 0, JNum 0], JArr [JNum 3, JNum 4],
           JArr [JNum 0, JNum 5], JArr [JNum 0, JNum 0]]]])])"
  using multipolygon_rings [of "[(''type'', JStr ''MultiPolygon''),
       (''coordinates'', JArr [JArr [JArr [JArr [JNum 0, JNum 0], JArr [JNum 3, JNum 4],
           JArr [JNum 0, JNum 5], JArr [JNum 0, JNum 0]]], JArr []])]"
      "[[JArr [JArr [JNum 0, JNum 0], JArr [JNum 3, JNum 4],
           JArr [JNum 0, JNum 5], JArr [JNum 0, JNum 0]]], []]" 10]
  by (simp add: simplify_geometry_def dict_member_def simplify_or_keep_def ring_collapses
      is_point_def)

section \<open>GeometryCollection\<close>

text \<open>
  C10. For a GeometryCollection, \<^verbatim>\<open>simplify_geometry\<close> and \<^verbatim>\<open>round_coordinates\<close> return
  the record as it is, member geometries included: neither looks under \<^verbatim>\<open>geometries\<close>.
  \<^verbatim>\<open>count_coordinates\<close> does: its result is the sum of the counts of the members.
\<close>

theorem geometry_collection_untouched:
  assumes "is_geometry_collection g"
  shows "simplify_geometry g tolerance = Some g
    \<and> round_coordinates g precision = Some g
    \<and> count_coordinates g =
        do { geoms \<leftarrow> py_get g ''geometries'' (JArr []);
             gs \<leftarrow> py_iter geoms;
             ns \<leftarrow> those (map count_coordinates gs);
             Some (sum_list ns) }"
proof -
  from assms obtain kvs where g: "g = JObj kvs"
    and ty: "map_of kvs ''type'' = Some (JStr ''GeometryCollection'')"
    and co: "map_of kvs ''coordinates'' = None"
    by (auto simp: is_geometry_collection_def split: json.splits)
  from ty have ne: "kvs \<noteq> []" by auto
  from ty have m: "dict_member kvs ''type'' (JStr []) = JStr ''GeometryCollection''"
    by (simp add: dict_member_def)
  have "simplify_geometry g tolerance = Some g"
    using ne m by (simp add: g simplify_geometry_def)
  moreover have "round_coordinates g precision = Some g"
    using co by (simp add: g round_coordinates_dict)
  moreover have "count_coordinates g =
        do { geoms \<leftarrow> py_get g ''geometries'' (JArr []);
             gs \<leftarrow> py_iter geoms;
             ns \<leftarrow> those (map count_coordinates gs);
             Some (sum_list ns) }"
    using ne m by (simp add: g count_coordinates_collection)
  ultimately show ?thesis by blast
qed

lemma collection_example:
  "is_geometry_collection (JObj [(''type'', JStr ''GeometryCollection''),
     (''geometries'', JArr [
        JObj [(''type'', JStr ''Point''), (''coordinates'', JArr [JNum 0.123456789, JNum 1])],
        JObj [(''type'', JStr ''LineString''),
              (''coordinates'', JArr [JArr [JNum 0, JNum 0], JArr [JNum 1, JNum 0.00000001],
                                      JArr [JNum 2, JNum 0]])]])])"
  by (simp add: is_geometry_collection_def)

theorem geometry_collection_untouched_witness:
  "simplify_geometry (JObj [(''type'', JStr ''GeometryCollection''),
     (''geometries'', JArr [
        JObj [(''type'', JStr ''Point''), (''coordinates'', JArr [JNum 0.123456789, JNum 1])],
        JObj [(''type'', JStr ''LineString''),
              (''coordinates'', JArr [JArr [JNum 0, JNum 0], JArr [JNum 1, JNum 0.00000001],
                                      JArr [JNum 2, JNum 0]])]])]) 1
   = Some (JObj [(''type'', JStr ''GeometryCollection''),
     (''geometries'', JArr [
        JObj [(''type'', JStr ''Point''), (''coordinates'', JArr [JNum 0.123456789, JNum 1])],
        JObj [(''type'', JStr ''LineString''),
              (''coordinates'', JArr [JArr [JNum 0, JNum 0], JArr [JNum 1, JNum 0.00000001],
                                      JArr [JNum 2, JNum 0]])]])])
  \<and> round_coordinates (JObj [(''type'', JStr ''GeometryCollection''),
     (''geometries'', JArr [
        JObj [(''type'', JStr ''Point''), (''coordinates'', JArr [JNum 0.123456789, JNum 1])],
        JObj [(''type'', JStr ''LineString''),
              (''coordinates'', JArr [JArr [JNum 0, JNum 0], JArr [JNum 1, JNum 0.00000001],
                                      JArr [JNum 2, JNum 0]])]])]) 6
   = Some (JObj [(''type'', JStr ''GeometryCollection''),
     (''geometries'', JArr [
        JObj [(''type'', JStr ''Point''), (''coordinates'', JArr [JNum 0.123456789, JNum 1])],
        JObj [(''type'', JStr ''LineString''),
              (''coordinates'', JArr [JArr [JNum 0, JNum 0], JArr [JNum 1, JNum 0.00000001],
                                      JArr [JNum 2, JNum 0]])]])])
  \<and> count_coordinates (JObj [(''type'', JStr ''GeometryCollection''),
     (''geometries'', JArr [
        JObj [(''type'', JStr ''Point''), (''coordinates'', JArr [JNum 0.123456789, JNum 1])],
        JObj [(''type'', JStr ''LineString''),
              (''coordinates'', JArr [JArr [JNum 0, JNum 0], JArr [JNum 1, JNum 0.00000001],
                                      JArr [JNum 2, JNum 0]])]])]) = Some 4"
  using geometry_collection_untouched [OF collection_example, of 1 6]
  by (simp add: dict_member_def count_coordinates_payload count_payload_def)

section \<open>The argument is updated in place\<close>

lemma simplify_geometry_frame:
  assumes "simplify_geometry g t = Some g'"
  shows "g' = g \<or> (\<exists>kvs v. g = JObj kvs \<and> g' = JObj (AList.update ''coordinates'' v kvs))"
proof (cases g)
  case (JObj kvs)
  with assms show ?thesis
    by (auto simp: simplify_geometry_def split: if_splits Option.bind_splits)
qed (use assms in \<open>auto simp: simplify_geometry_def split: if_splits\<close>)

lemma round_coordinates_frame:
  assumes "round_coordinates g p = Some g'"
  shows "g' = g \<or> (\<exists>kvs v. g = JObj kvs \<and> g' = JObj (AList.update ''coordinates'' v kvs))"
proof (cases g)
  case (JObj kvs)
  with assms show ?thesis
    by (auto simp: round_coordinates_dict split: if_splits option.splits)
qed (use assms in \<open>auto simp: round_coordinates_other split: if_splits\<close>)

lemma call_simplify_geometry_frame:
  assumes c: "call_simplify_geometry s a tolerance = Some (s', r)"
  shows "r = a \<and> (\<forall>b. b \<noteq> a \<longrightarrow> s' b = s b)
      \<and> (\<exists>g g'. s a = Some g \<and> s' a = Some g' \<and> simplify_geometry g tolerance = Some g'
            \<and> (g' = g \<or> (\<exists>kvs v. g = JObj kvs
                  \<and> g' = JObj (AList.update ''coordinates'' v kvs))))"
proof -
  from c obtain g where g1: "s a = Some g"
    by (cases "s a") (simp_all add: call_simplify_geometry_def)
  with c obtain g' where g2: "simplify_geometry g tolerance = Some g'"
    by (cases "simplify_geometry g tolerance") (simp_all add: call_simplify_geometry_def)
  from c g1 g2 have s': "s' = s(a \<mapsto> g')" and r: "r = a"
    by (auto simp: call_simplify_geometry_def)
  from s' have "\<forall>b. b \<noteq> a \<longrightarrow> s' b = s b" by simp
  moreover from s' have "s' a = Some g'" by simp
  ultimately show ?thesis
    using r g1 g2 simplify_geometry_frame [OF g2] by blast
qed

lemma call_round_coordinates_frame:
  assumes c: "call_round_coordinates s a precision = Some (s', r)"
  shows "r = a \<and> (\<forall>b. b \<noteq> a \<longrightarrow> s' b = s b)
      \<and> (\<exists>g g'. s a = Some g \<and> s' a = Some g' \<and> round_coordinates g precision = Some g'
            \<and> (g' = g \<or> (\<exists>kvs v. g = JObj kvs
                  \<and> g' = JObj (AList.update ''coordinates'' v kvs))))"
proof -
  from c obtain g where g1: "s a = Some g"
    by (cases "s a") (simp_all add: call_round_coordinates_def)
  with c obtain g' where g2: "round_coordinates g precision = Some g'"
    by (cases "round_coordinates g precision") (simp_all add: call_round_coordinates_def)
  from c g1 g2 have s': "s' = s(a \<mapsto> g')" and r: "r = a"
    by (auto simp: call_round_coordinates_def)
  from s' have "\<forall>b. b \<noteq> a \<longrightarrow> s' b = s b" by simp
  moreover from s' have "s' a = Some g'" by simp
  ultimately show ?thesis
    using r g1 g2 round_coordinates_frame [OF g2] by blast
qed

text \<open>
  C2. A call of \<^verbatim>\<open>simplify_geometry\<close> or \<^verbatim>\<open>round_coordinates\<close> that returns hands back
  the address it was given; no other object of the store changes; and the object at that
  address holds the result, which is the old record or the old record with \<^verbatim>\<open>coordinates\<close>
  assigned. So the input is changed whenever the operation changes anything, and only in
  its \<^verbatim>\<open>coordinates\<close> member.
\<close>

theorem calls_update_in_place:
  "(\<forall>s' r. call_simplify_geometry s a tolerance = Some (s', r) \<longrightarrow>
      r = a \<and> (\<forall>b. b \<noteq> a \<longrightarrow> s' b = s b)
      \<and> (\<exists>g g'. s a = Some g \<and> s' a = Some g' \<and> simplify_geometry g tolerance = Some g'
            \<and> (g' = g \<or> (\<exists>kvs v. g = JObj kvs
                  \<and> g' = JObj (AList.update ''coordinates'' v kvs)))))
   \<and> (\<forall>s' r. call_round_coordinates s a precision = Some (s', r) \<longrightarrow>
      r = a \<and> (\<forall>b. b \<noteq> a \<longrightarrow> s' b = s b)
      \<and> (\<exists>g g'. s a = Some g \<and> s' a = Some g' \<and> round_coordinates g precision = Some g'
            \<and> (g' = g \<or> (\<exists>kvs v. g = JObj kvs
                  \<and> g' = JObj (AList.update ''coordinates'' v kvs)))))"
  using call_simplify_geometry_frame call_round_coordinates_frame by blast

theorem calls_update_in_place_witness:
  "map_option (\<lambda>(s', r). (s' 0, s' 1, r))
     (call_simplify_geometry
        [0 \<mapsto> JObj [(''type'', JStr ''LineString''),
           (''coordinates'', JArr [JArr [JNum 0, JNum 0], JArr [JNum 1, JNum 1], JArr [JNum 2, JNum 0]])],
         1 \<mapsto> JObj [(''type'', JStr ''Point''), (''coordinates'', JArr [JNum 1.26, JNum 1])]]
        0 2)
   = Some (Some (JObj (AList.update ''coordinates'' (JArr [JArr [JNum 0, JNum 0], JArr [JNum 2, JNum 0]])
                   [(''type'', JStr ''LineString''),
                    (''coordinates'', JArr [JArr [JNum 0, JNum 0], JArr [JNum 1, JNum 1],
                       JArr [JNum 2, JNum 0]])])),
           Some (JObj [(''type'', JStr ''Point''), (''coordinates'', JArr [JNum 1.26, JNum 1])]), 0)
   \<and> map_option (\<lambda>(s', r). (s' 0, s' 1, r))
     (call_round_coordinates
        [0 \<mapsto> JObj [(''type'', JStr ''LineString''),
           (''coordinates'', JArr [JArr [JNum 0, JNum 0], JArr [JNum 1, JNum 1], JArr [JNum 2, JNum 0]])],
         1 \<mapsto> JObj [(''type'', JStr ''Point''), (''coordinates'', JArr [JNum 1.26, JNum 1])]]
        1 1)
   = Some (Some (JObj [(''type'', JStr ''LineString''),
           (''coordinates'', JArr [JArr [JNum 0, JNum 0], JArr [JNum 1, JNum 1], JArr [JNum 2, JNum 0]])]),
           Some (JObj (AList.update ''coordinates'' (JArr [JNum 1.3, JNum 1])
                   [(''type'', JStr ''Point''), (''coordinates'', JArr [JNum 1.26, JNum 1])])), 1)"
  using calls_update_in_place [of
      "[0 \<mapsto> JObj [(''type'', JStr ''LineString''),
           (''coordinates'', JArr [JArr [JNum 0, JNum 0], JArr [JNum 1, JNum 1], JArr [JNum 2, JNum 0]])],
         1 \<mapsto> JObj [(''type'', JStr ''Point''), (''coordinates'', JArr [JNum 1.26, JNum 1])]]" 0 2 1]
    calls_update_in_place [of
      "[0 \<mapsto> JObj [(''type'', JStr ''LineString''),
           (''coordinates'', JArr [JArr [JNum 0, JNum 0], JArr [JNum 1, JNum 1], JArr [JNum 2, JNum 0]])],
         1 \<mapsto> JObj [(''type'', JStr ''Point''), (''coordinates'', JArr [JNum 1.26, JNum 1])]]" 1 2 1]
  by (simp add: call_simplify_geometry_def call_round_coordinates_def simplify_linestring_example
      round_coordinates_dict py_round_def round_half_even_def)

text \<open>
  After simplifying a LineString of three points with tolerance 2, and after rounding a
  Point to 4 decimals, the object that was passed holds the new coordinates.
\<close>

theorem calls_change_their_argument:
  "call_simplify_geometry
      [0 \<mapsto> JObj [(''type'', JStr ''LineString''),
         (''coordinates'', JArr [JArr [JNum 0, JNum 0], JArr [JNum 1, JNum 1], JArr [JNum 2, JNum 0]])]]
      0 2
   = Some ([0 \<mapsto> JObj [(''type'', JStr ''LineString''),
         (''coordinates'', JArr [JArr [JNum 0, JNum 0], JArr [JNum 2, JNum 0]])]], 0)
   \<and> call_round_coordinates
      [0 \<mapsto> JObj [(''type'', JStr ''Point''), (''coordinates'', JArr [JNum 12.3456789, JNum (- 45.6789012)])]]
      0 4
   = Some ([0 \<mapsto> JObj [(''type'', JStr ''Point''), (''coordinates'', JArr [JNum 12.3457, JNum (- 45.6789)])]], 0)
   \<and> JObj [(''type'', JStr ''LineString''),
         (''coordinates'', JArr [JArr [JNum 0, JNum 0], JArr [JNum 2, JNum 0]])]
     \<noteq> JObj [(''type'', JStr ''LineString''),
         (''coordinates'', JArr [JArr [JNum 0, JNum 0], JArr [JNum 1, JNum 1], JArr [JNum 2, JNum 0]])]
   \<and> JObj [(''type'', JStr ''Point''), (''coordinates'', JArr [JNum 12.3457, JNum (- 45.6789)])]
     \<noteq> JObj [(''type'', JStr ''Point''), (''coordinates'', JArr [JNum 12.3456789, JNum (- 45.6789012)])]"
  by (simp add: call_simplify_geometry_def call_round_coordinates_def simplify_linestring_example
      round_coordinates_dict py_round_def round_half_even_def)


end
